theory Spec2Isabelle
  imports Complex_Main "HOL-Library.AList"
begin

section \<open>Data model\<close>

text \<open>
  The repository holds two variants of one program, \<^verbatim>\<open>ded.py\<close> (relays driven through
  gpiod lines, addressed by pin number) and \<^verbatim>\<open>grfin.py\<close> (relays driven through gpiozero
  devices, addressed by name). The control logic of \<^verbatim>\<open>ClimateControlApp\<close> is the same in
  both; they differ in \<^verbatim>\<open>set_relay\<close>, in the button geometry of the settings screen and
  in the clean-up after the main loop.
\<close>

datatype error = KeyError | OSError

text \<open>
  A Python float as far as the program looks at it: it only compares readings with integer
  setpoints, and Python compares a float with an int by exact value. \<open>NaN\<close> compares false
  with everything.
\<close>

datatype reading = Finite rat | PosInf | NegInf | NaN

fun gt_int :: "reading \<Rightarrow> int \<Rightarrow> bool" where
  "gt_int (Finite q) i = (q > of_int i)"
| "gt_int PosInf i = True"
| "gt_int NegInf i = False"
| "gt_int NaN i = False"

fun lt_int :: "reading \<Rightarrow> int \<Rightarrow> bool" where
  "lt_int (Finite q) i = (q < of_int i)"
| "lt_int PosInf i = False"
| "lt_int NegInf i = True"
| "lt_int NaN i = False"

fun le_int :: "reading \<Rightarrow> int \<Rightarrow> bool" where
  "le_int (Finite q) i = (q \<le> of_int i)"
| "le_int PosInf i = False"
| "le_int NegInf i = True"
| "le_int NaN i = False"

fun ge_int :: "reading \<Rightarrow> int \<Rightarrow> bool" where
  "ge_int (Finite q) i = (q \<ge> of_int i)"
| "ge_int PosInf i = True"
| "ge_int NegInf i = False"
| "ge_int NaN i = False"

record room_settings =
  min_temp :: int
  max_temp :: int
  manual_heat :: bool
  manual_cool :: bool

record room_state =
  cooling :: bool
  heating :: bool

datatype screen = MainScreen | SettingsScreen

text \<open>
  \<^verbatim>\<open>sensor_ids\<close>: the built-in room list, in the order of the dictionary literal, which is
  the order every loop over the rooms follows.
\<close>

definition sensor_ids :: "(string \<times> string) list" where
  "sensor_ids =
    [(''room1'', ''28-0b2396934aee''),
     (''room2'', ''28-0b2396b717c8''),
     (''room3'', ''28-00000036fd20''),
     (''room4'', ''28-0b2396b8f8d6''),
     (''room5'', ''28-0b23965334fa'')]"

definition rooms :: "string list" where
  "rooms = map fst sensor_ids"

definition default_room :: room_settings where
  "default_room = \<lparr>min_temp = 20, max_temp = 25, manual_heat = False, manual_cool = False\<rparr>"

definition DEFAULT_SETTINGS :: "string \<rightharpoonup> room_settings" where
  "DEFAULT_SETTINGS = map_of
    [(''room1'', default_room), (''room2'', default_room), (''room3'', default_room),
     (''room4'', default_room), (''room5'', default_room)]"

text \<open>
  The fields of \<^verbatim>\<open>ClimateControlApp\<close> that carry state (fonts, colours and the pygame
  handles are left out). \<open>settings\<close> is the dictionary read from the JSON file and may lack
  rooms; \<open>temperatures\<close> starts empty, and a stored \<^verbatim>\<open>None\<close> and a missing key are the
  same to \<^verbatim>\<open>temperatures.get(room)\<close>. \<open>room_states\<close> is built in \<^verbatim>\<open>__init__\<close> with
  exactly the keys of \<open>sensor_ids\<close> and no key is ever added or removed, so it is a total
  function on the room list and \<^verbatim>\<open>room_states.values()\<close> is its image of that list.
\<close>

record app =
  settings :: "string \<rightharpoonup> room_settings"
  current_screen :: screen
  selected_room :: "string option"
  temperatures :: "string \<rightharpoonup> reading"
  room_states :: "string \<Rightarrow> room_state"
  last_temp_update :: rat
  last_control_update :: rat

section \<open>Relay sink\<close>

text \<open>
  \<^verbatim>\<open>set_relay(relay, state)\<close> drives the hardware and returns whether the command went
  through. The control engine is written against any such sink: a function from the relay
  name, the wanted state and the hardware to the success flag and the hardware afterwards.
  A command in a log is the relay, the wanted state and the flag that came back.
\<close>

type_synonym 'h sink = "string \<Rightarrow> bool \<Rightarrow> 'h \<Rightarrow> bool \<times> 'h"

type_synonym cmd = "string \<times> bool \<times> bool"

definition cmd_ok :: "cmd \<Rightarrow> bool" where
  "cmd_ok c = snd (snd c)"

definition cmd_target :: "cmd \<Rightarrow> string \<times> bool" where
  "cmd_target c = (fst c, fst (snd c))"

text \<open>
  \<^verbatim>\<open>set_relay(a, x) and set_relay(b, y) and ...\<close>: the commands are issued from left to
  right and the chain stops at the first one that fails.
\<close>

fun relay_chain :: "'h sink \<Rightarrow> (string \<times> bool) list \<Rightarrow> 'h \<Rightarrow> bool \<times> 'h \<times> cmd list" where
  "relay_chain sr [] h = (True, h, [])"
| "relay_chain sr ((n, s) # cs) h =
     (case sr n s h of
        (False, h1) \<Rightarrow> (False, h1, [(n, s, False)])
      | (True, h1) \<Rightarrow>
          (case relay_chain sr cs h1 of (ok, h2, lg) \<Rightarrow> (ok, h2, (n, s, True) # lg)))"

subsection \<open>The gpiozero sink of \<^verbatim>\<open>grfin.py\<close>\<close>

definition grfin_RELAY_PINS :: "(string \<times> nat) list" where
  "grfin_RELAY_PINS =
    [(''ac'', 17), (''heater_vent'', 19), (''room3'', 22), (''room2'', 23),
     (''room1'', 24), (''supply'', 25), (''room4'', 26), (''room5'', 27)]"

text \<open>
  An \<^verbatim>\<open>OutputDevice\<close>: its pin, whether it has been closed (\<^verbatim>\<open>on()\<close> and \<^verbatim>\<open>off()\<close>
  raise on a closed device) and whether the relay is switched on.
\<close>

record device =
  dev_pin :: nat
  dev_closed :: bool
  dev_on :: bool

text \<open>
  The module-level state: \<^verbatim>\<open>gpio_initialized\<close> and the dictionary \<^verbatim>\<open>relay_devices\<close>
  in insertion order.
\<close>

record gpiozero =
  gpio_initialized :: bool
  relay_devices :: "(string \<times> device) list"

text \<open>
  \<^verbatim>\<open>set_relay\<close> of \<^verbatim>\<open>grfin.py\<close>. Without GPIO the command is only printed and counts
  as done; a name that is not in \<^verbatim>\<open>relay_devices\<close> raises \<^verbatim>\<open>KeyError\<close> inside the
  \<^verbatim>\<open>try\<close>, which returns \<^verbatim>\<open>False\<close> like a device that raises.
\<close>

definition grfin_set_relay :: "gpiozero sink" where
  "grfin_set_relay relay_name state g =
     (if \<not> gpio_initialized g then (True, g)
      else
        (case map_of (relay_devices g) relay_name of
           None \<Rightarrow> (False, g)
         | Some relay \<Rightarrow>
             if dev_closed relay then (False, g)
             else (True, g\<lparr>relay_devices :=
                     AList.update relay_name (relay\<lparr>dev_on := state\<rparr>) (relay_devices g)\<rparr>)))"

text \<open>
  The module-level initialisation when every \<^verbatim>\<open>OutputDevice\<close> could be created
  (\<^verbatim>\<open>initial_value=False\<close>: all relays off), and when the first one raised: the
  dictionary stays empty and the program runs in simulation mode.
\<close>

definition grfin_gpio_ready :: gpiozero where
  "grfin_gpio_ready =
     \<lparr>gpio_initialized = True,
      relay_devices =
        map (\<lambda>(name, pin). (name, \<lparr>dev_pin = pin, dev_closed = False, dev_on = False\<rparr>))
          grfin_RELAY_PINS\<rparr>"

definition grfin_gpio_simulated :: gpiozero where
  "grfin_gpio_simulated = \<lparr>gpio_initialized = False, relay_devices = []\<rparr>"

subsection \<open>The gpiod sink of \<^verbatim>\<open>ded.py\<close>\<close>

definition ded_RELAY_PINS :: "(string \<times> nat) list" where
  "ded_RELAY_PINS =
    [(''ac'', 27), (''heater_vent'', 28), (''room3'', 29), (''room2'', 31),
     (''room1'', 37), (''supply'', 33), (''room4'', 35), (''room5'', 36)]"

text \<open>
  A requested gpiod line: whether it has been released (\<^verbatim>\<open>set_value\<close> raises on a
  released line) and the level it drives; the relays are active low, \<open>0\<close> is on and
  \<open>1\<close> is off.
\<close>

record line =
  line_released :: bool
  line_value :: nat

text \<open>The dictionary \<^verbatim>\<open>line_requests\<close>, keyed by pin number, in insertion order.\<close>

record gpiod =
  line_requests :: "(nat \<times> line) list"

text \<open>
  \<^verbatim>\<open>set_relay(pin, state)\<close> of \<^verbatim>\<open>ded.py\<close>: a pin without a requested line raises
  \<^verbatim>\<open>KeyError\<close> inside the \<^verbatim>\<open>try\<close>, which returns \<^verbatim>\<open>False\<close>.
\<close>

definition ded_set_relay :: "nat \<Rightarrow> bool \<Rightarrow> gpiod \<Rightarrow> bool \<times> gpiod" where
  "ded_set_relay pin state g =
     (case map_of (line_requests g) pin of
        None \<Rightarrow> (False, g)
      | Some gline \<Rightarrow>
          if line_released gline then (False, g)
          else (True, g\<lparr>line_requests :=
                  AList.update pin (gline\<lparr>line_value := (if state then 0 else 1)\<rparr>)
                    (line_requests g)\<rparr>))"

text \<open>
  \<^verbatim>\<open>ded.py\<close> calls \<^verbatim>\<open>set_relay(RELAY_PINS[name], state)\<close>. The names it passes are the
  literals \<^verbatim>\<open>'ac'\<close>, \<^verbatim>\<open>'heater_vent'\<close>, \<^verbatim>\<open>'supply'\<close> and the rooms of \<open>sensor_ids\<close>, all
  keys of \<^verbatim>\<open>RELAY_PINS\<close>; the lookup of any other name would raise before a command is
  issued and is no command here.
\<close>

definition ded_sink :: "gpiod sink" where
  "ded_sink name state g =
     (case map_of ded_RELAY_PINS name of
        None \<Rightarrow> (False, g)
      | Some pin \<Rightarrow> ded_set_relay pin state g)"

definition ded_gpio_ready :: gpiod where
  "ded_gpio_ready =
     \<lparr>line_requests =
        map (\<lambda>(name, pin). (pin, \<lparr>line_released = False, line_value = 1\<rparr>)) ded_RELAY_PINS\<rparr>"

section \<open>Control engine\<close>

text \<open>
  \<^verbatim>\<open>if <chain>: <assign the flags>\<close>: the flags of the room are written only when the
  whole chain returned true.
\<close>

definition attempt ::
  "'h sink \<Rightarrow> (string \<times> bool) list \<Rightarrow> room_state \<Rightarrow> string \<Rightarrow> app \<Rightarrow> 'h \<Rightarrow> app \<times> 'h \<times> cmd list" where
  "attempt sr cs st' room a h =
     (case relay_chain sr cs h of
        (ok, h1, lg) \<Rightarrow>
          ((if ok then a\<lparr>room_states := (room_states a)(room := st')\<rparr> else a), h1, lg))"

text \<open>
  The body of the loop over the rooms in \<^verbatim>\<open>control_climate\<close>. A room without a reading
  is skipped before anything else is looked at; \<^verbatim>\<open>self.settings[room]\<close> raises
  \<^verbatim>\<open>KeyError\<close> when the loaded configuration lacks the room. The result carries the
  relay commands issued for this room.
\<close>

definition control_room :: "'h sink \<Rightarrow> string \<Rightarrow> app \<Rightarrow> 'h \<Rightarrow> error + (app \<times> 'h \<times> cmd list)" where
  "control_room sr room a h =
     (case temperatures a room of
        None \<Rightarrow> Inr (a, h, [])
      | Some temp \<Rightarrow>
          (case settings a room of
             None \<Rightarrow> Inl KeyError
           | Some cfg \<Rightarrow>
               (let st = room_states a room in
                if manual_heat cfg then
                  (if \<not> heating st then
                     Inr (attempt sr [(room, True), (''heater_vent'', True), (''supply'', True)]
                            (st\<lparr>heating := True, cooling := False\<rparr>) room a h)
                   else Inr (a, h, []))
                else if manual_cool cfg then
                  (if \<not> cooling st then
                     Inr (attempt sr [(room, True), (''ac'', True)]
                            (st\<lparr>cooling := True, heating := False\<rparr>) room a h)
                   else Inr (a, h, []))
                else if gt_int temp (max_temp cfg) \<and> \<not> cooling st then
                  Inr (attempt sr [(room, True), (''ac'', True)]
                         (st\<lparr>cooling := True, heating := False\<rparr>) room a h)
                else if le_int temp (max_temp cfg - 3) \<and> cooling st then
                  Inr (attempt sr [(room, False)] (st\<lparr>cooling := False\<rparr>) room a h)
                else if lt_int temp (min_temp cfg) \<and> \<not> heating st then
                  Inr (attempt sr [(room, True), (''heater_vent'', True), (''supply'', True)]
                         (st\<lparr>heating := True, cooling := False\<rparr>) room a h)
                else if ge_int temp (min_temp cfg + 3) \<and> heating st then
                  Inr (attempt sr [(room, False)] (st\<lparr>heating := False\<rparr>) room a h)
                else Inr (a, h, []))))"

text \<open>
  The branches of the \<^verbatim>\<open>if\<close>/\<^verbatim>\<open>elif\<close> chain by name: which branch the chain takes, the
  relay commands that branch chains together, and the flags it assigns when the chain
  returned true. \<open>control_room_by_rule\<close> below shows that \<open>control_room\<close> is this table.
\<close>

datatype rule = ManualHeat | ManualCool | CoolOn | CoolOff | HeatOn | HeatOff | NoRule

definition fired_rule :: "room_settings \<Rightarrow> reading \<Rightarrow> room_state \<Rightarrow> rule" where
  "fired_rule cfg temp st =
     (if manual_heat cfg then ManualHeat
      else if manual_cool cfg then ManualCool
      else if gt_int temp (max_temp cfg) \<and> \<not> cooling st then CoolOn
      else if le_int temp (max_temp cfg - 3) \<and> cooling st then CoolOff
      else if lt_int temp (min_temp cfg) \<and> \<not> heating st then HeatOn
      else if ge_int temp (min_temp cfg + 3) \<and> heating st then HeatOff
      else NoRule)"

fun rule_commands :: "string \<Rightarrow> rule \<Rightarrow> room_state \<Rightarrow> (string \<times> bool) list" where
  "rule_commands room ManualHeat st =
     (if heating st then [] else [(room, True), (''heater_vent'', True), (''supply'', True)])"
| "rule_commands room ManualCool st =
     (if cooling st then [] else [(room, True), (''ac'', True)])"
| "rule_commands room CoolOn st = [(room, True), (''ac'', True)]"
| "rule_commands room CoolOff st = [(room, False)]"
| "rule_commands room HeatOn st = [(room, True), (''heater_vent'', True), (''supply'', True)]"
| "rule_commands room HeatOff st = [(room, False)]"
| "rule_commands room NoRule st = []"

fun rule_commit :: "rule \<Rightarrow> room_state \<Rightarrow> room_state" where
  "rule_commit ManualHeat st = st\<lparr>heating := True, cooling := False\<rparr>"
| "rule_commit ManualCool st = st\<lparr>cooling := True, heating := False\<rparr>"
| "rule_commit CoolOn st = st\<lparr>cooling := True, heating := False\<rparr>"
| "rule_commit CoolOff st = st\<lparr>cooling := False\<rparr>"
| "rule_commit HeatOn st = st\<lparr>heating := True, cooling := False\<rparr>"
| "rule_commit HeatOff st = st\<lparr>heating := False\<rparr>"
| "rule_commit NoRule st = st"

text \<open>
  \<^verbatim>\<open>for room, sensor_id in sensor_ids.items()\<close>: the rooms in order; an exception ends
  the loop. The log keeps the commands of each room under the room's name.
\<close>

fun control_rooms ::
  "'h sink \<Rightarrow> string list \<Rightarrow> app \<Rightarrow> 'h \<Rightarrow> error + (app \<times> 'h \<times> (string \<times> cmd list) list)" where
  "control_rooms sr [] a h = Inr (a, h, [])"
| "control_rooms sr (r # rs) a h =
     (case control_room sr r a h of
        Inl e \<Rightarrow> Inl e
      | Inr (a1, h1, lg) \<Rightarrow>
          (case control_rooms sr rs a1 h1 of
             Inl e \<Rightarrow> Inl e
           | Inr (a2, h2, lgs) \<Rightarrow> Inr (a2, h2, (r, lg) # lgs)))"

text \<open>
  The two blocks after the loop: the AC is switched off when no room is cooling, the heater
  vent and the supply when no room is heating. Both commands of the second block are issued
  whatever the first one returned.
\<close>

definition ac_off :: "'h sink \<Rightarrow> app \<Rightarrow> 'h \<Rightarrow> 'h \<times> cmd list" where
  "ac_off sr a h =
     (if list_all (\<lambda>r. \<not> cooling (room_states a r)) rooms then
        (case sr ''ac'' False h of (ok, h1) \<Rightarrow> (h1, [(''ac'', False, ok)]))
      else (h, []))"

definition heat_off :: "'h sink \<Rightarrow> app \<Rightarrow> 'h \<Rightarrow> 'h \<times> cmd list" where
  "heat_off sr a h =
     (if list_all (\<lambda>r. \<not> heating (room_states a r)) rooms then
        (case sr ''heater_vent'' False h of
           (ok1, h1) \<Rightarrow>
             (case sr ''supply'' False h1 of
                (ok2, h2) \<Rightarrow> (h2, [(''heater_vent'', False, ok1), (''supply'', False, ok2)])))
      else (h, []))"

text \<open>
  \<^verbatim>\<open>control_climate\<close>, with the clock reading as an argument. The result is the
  application state, the hardware, the per-room command logs and the commands of the two
  closing blocks. Within ten seconds of the last cycle nothing happens.
\<close>

definition control_climate ::
  "'h sink \<Rightarrow> rat \<Rightarrow> app \<Rightarrow> 'h \<Rightarrow> error + (app \<times> 'h \<times> (string \<times> cmd list) list \<times> cmd list)" where
  "control_climate sr current_time a h =
     (if current_time - last_control_update a \<ge> 10 then
        (case control_rooms sr rooms a h of
           Inl e \<Rightarrow> Inl e
         | Inr (a1, h1, lgs) \<Rightarrow>
             (case ac_off sr a1 h1 of
                (h2, c1) \<Rightarrow>
                  (case heat_off sr a1 h2 of
                     (h3, c2) \<Rightarrow>
                       Inr (a1\<lparr>last_control_update := current_time\<rparr>, h3, lgs, c1 @ c2))))
      else Inr (a, h, [], []))"

text \<open>The two flags of a room are not both set.\<close>

definition exclusive :: "room_state \<Rightarrow> bool" where
  "exclusive st = (\<not> (heating st \<and> cooling st))"

text \<open>
  \<^verbatim>\<open>ClimateControlApp.__init__\<close>, given the settings that \<^verbatim>\<open>load_settings\<close> returned:
  the main screen, no room selected, no reading yet, every room idle, both timers at zero.
\<close>

definition init_app :: "(string \<rightharpoonup> room_settings) \<Rightarrow> app" where
  "init_app loaded =
     \<lparr>settings = loaded, current_screen = MainScreen, selected_room = None,
      temperatures = Map.empty,
      room_states = (\<lambda>room. \<lparr>cooling = False, heating = False\<rparr>),
      last_temp_update = 0, last_control_update = 0\<rparr>"

text \<open>All relay commands of one cycle in the order of issue: relay and wanted state.\<close>

definition cycle_commands :: "(string \<times> cmd list) list \<Rightarrow> cmd list \<Rightarrow> (string \<times> bool) list" where
  "cycle_commands lgs sh = map cmd_target (concat (map snd lgs) @ sh)"

text \<open>
  The relay sink called on a sequence of commands, one call of \<^verbatim>\<open>set_relay\<close> after the
  other: the hardware the calls leave behind and, for each call, the flag it returned.
\<close>

fun sink_run :: "'h sink \<Rightarrow> (string \<times> bool) list \<Rightarrow> 'h \<Rightarrow> 'h \<times> cmd list" where
  "sink_run sr [] h = (h, [])"
| "sink_run sr ((n, s) # cs) h =
     (case sr n s h of
        (ok, h1) \<Rightarrow> (case sink_run sr cs h1 of (h2, lg) \<Rightarrow> (h2, (n, s, ok) # lg)))"

section \<open>Settings file\<close>

text \<open>
  \<^verbatim>\<open>climate_settings.json\<close> as the program sees it: absent, not parseable, or holding a
  dictionary of room settings; \<open>writable\<close> says whether opening it for writing succeeds.
\<close>

datatype json_file = Missing | Malformed | Stored "string \<rightharpoonup> room_settings"

record disk =
  settings_file :: json_file
  writable :: bool

text \<open>
  \<^verbatim>\<open>load_settings\<close>: what \<^verbatim>\<open>json.load\<close> returns, as it is; any exception gives
  \<^verbatim>\<open>DEFAULT_SETTINGS.copy()\<close>.
\<close>

definition load_settings :: "disk \<Rightarrow> (string \<rightharpoonup> room_settings)" where
  "load_settings d =
     (case settings_file d of
        Stored loaded \<Rightarrow> loaded
      | Missing \<Rightarrow> DEFAULT_SETTINGS
      | Malformed \<Rightarrow> DEFAULT_SETTINGS)"

text \<open>\<^verbatim>\<open>save_settings\<close> has no handler: a failing \<^verbatim>\<open>open\<close> raises to the caller.\<close>

definition save_settings :: "(string \<rightharpoonup> room_settings) \<Rightarrow> disk \<Rightarrow> error + disk" where
  "save_settings s d = (if writable d then Inr (d\<lparr>settings_file := Stored s\<rparr>) else Inl OSError)"

section \<open>Settings screen\<close>

text \<open>
  \<^verbatim>\<open>pygame.Rect(left, top, width, height)\<close> and \<^verbatim>\<open>collidepoint\<close>: the right and the bottom
  edge are outside.
\<close>

datatype rect = Rect int int int int

fun collidepoint :: "rect \<Rightarrow> int \<times> int \<Rightarrow> bool" where
  "collidepoint (Rect l t w h) (x, y) = (l \<le> x \<and> x < l + w \<and> t \<le> y \<and> y < t + h)"

text \<open>
  The two variants draw the rows of the settings screen at different heights:
  \<^verbatim>\<open>ded.py\<close> at 120, 180 and 240, \<^verbatim>\<open>grfin.py\<close> at 160, 220 and 280.
\<close>

record layout =
  min_row :: int
  max_row :: int
  manual_row :: int

definition ded_layout :: layout where
  "ded_layout = \<lparr>min_row = 120, max_row = 180, manual_row = 240\<rparr>"

definition grfin_layout :: layout where
  "grfin_layout = \<lparr>min_row = 160, max_row = 220, manual_row = 280\<rparr>"

text \<open>\<^verbatim>\<open>self.settings[room][...] = ...\<close>: \<^verbatim>\<open>KeyError\<close> when the room is not configured.\<close>

definition edit_room :: "string \<Rightarrow> (room_settings \<Rightarrow> room_settings) \<Rightarrow> app \<Rightarrow> error + app" where
  "edit_room room f a =
     (case settings a room of
        None \<Rightarrow> Inl KeyError
      | Some cfg \<Rightarrow> Inr (a\<lparr>settings := (settings a)(room \<mapsto> f cfg)\<rparr>))"

definition toggle_heat :: "room_settings \<Rightarrow> room_settings" where
  "toggle_heat cfg =
     (let c1 = cfg\<lparr>manual_heat := \<not> manual_heat cfg\<rparr>
      in if manual_heat c1 then c1\<lparr>manual_cool := False\<rparr> else c1)"

definition toggle_cool :: "room_settings \<Rightarrow> room_settings" where
  "toggle_cool cfg =
     (let c1 = cfg\<lparr>manual_cool := \<not> manual_cool cfg\<rparr>
      in if manual_cool c1 then c1\<lparr>manual_heat := False\<rparr> else c1)"

text \<open>
  The \<^verbatim>\<open>MOUSEBUTTONDOWN\<close> branch of \<^verbatim>\<open>handle_events\<close> on the settings screen, for the
  mouse position \<open>pos\<close>: three independent \<^verbatim>\<open>if\<close>/\<^verbatim>\<open>elif\<close> pairs for the minimum, the
  maximum and the manual buttons, then the back button, which saves. The window is 800 by
  480, so the back button is \<^verbatim>\<open>Rect(630, 410, 150, 60)\<close>. Nothing checks the new values.
\<close>

definition settings_click :: "layout \<Rightarrow> int \<times> int \<Rightarrow> app \<Rightarrow> disk \<Rightarrow> error + (app \<times> disk)" where
  "settings_click ly pos a d =
     (case selected_room a of
        None \<Rightarrow> Inr (a, d)
      | Some room \<Rightarrow>
          if room = [] then Inr (a, d)
          else
            (case (if collidepoint (Rect 300 (min_row ly) 40 40) pos
                   then edit_room room (\<lambda>c. c\<lparr>min_temp := min_temp c + 1\<rparr>) a
                   else if collidepoint (Rect 350 (min_row ly) 40 40) pos
                   then edit_room room (\<lambda>c. c\<lparr>min_temp := min_temp c - 1\<rparr>) a
                   else Inr a) of
               Inl e \<Rightarrow> Inl e
             | Inr a1 \<Rightarrow>
                 (case (if collidepoint (Rect 300 (max_row ly) 40 40) pos
                        then edit_room room (\<lambda>c. c\<lparr>max_temp := max_temp c + 1\<rparr>) a1
                        else if collidepoint (Rect 350 (max_row ly) 40 40) pos
                        then edit_room room (\<lambda>c. c\<lparr>max_temp := max_temp c - 1\<rparr>) a1
                        else Inr a1) of
                    Inl e \<Rightarrow> Inl e
                  | Inr a2 \<Rightarrow>
                      (case (if collidepoint (Rect 20 (manual_row ly) 150 60) pos
                             then edit_room room toggle_heat a2
                             else if collidepoint (Rect 200 (manual_row ly) 150 60) pos
                             then edit_room room toggle_cool a2
                             else Inr a2) of
                         Inl e \<Rightarrow> Inl e
                       | Inr a3 \<Rightarrow>
                           if collidepoint (Rect (800 - 170) (480 - 70) 150 60) pos
                           then (case save_settings (settings a3) d of
                                   Inl e \<Rightarrow> Inl e
                                 | Inr d1 \<Rightarrow> Inr (a3\<lparr>current_screen := MainScreen\<rparr>, d1))
                           else Inr (a3, d)))))"

section \<open>Clean-up after the main loop\<close>





section \<open>Temperature source\<close>

text \<open>
  \<^verbatim>\<open>str.strip()\<close> on the bytes of an ASCII file: the characters for which
  \<^verbatim>\<open>str.isspace\<close> holds are tab, line feed, vertical tab, form feed, carriage return, the
  four separators \<open>0x1C\<close> to \<open>0x1F\<close> and the space.
\<close>

definition py_isspace :: "char \<Rightarrow> bool" where
  "py_isspace c =
     (c \<in> set [CHR 0x09, CHR 0x0A, CHR 0x0B, CHR 0x0C, CHR 0x0D,
               CHR 0x1C, CHR 0x1D, CHR 0x1E, CHR 0x1F, CHR 0x20])"

definition strip :: "string \<Rightarrow> string" where
  "strip s = rev (dropWhile py_isspace (rev (dropWhile py_isspace s)))"

text \<open>\<^verbatim>\<open>s[-3:]\<close>: the last three characters, or all of a shorter string.\<close>

definition last3 :: "string \<Rightarrow> string" where
  "last3 s = drop (length s - 3) s"

text \<open>\<^verbatim>\<open>s.find(sub)\<close>: the lowest index where \<open>sub\<close> starts; \<open>None\<close> stands for \<open>-1\<close>.\<close>

fun py_find :: "string \<Rightarrow> string \<Rightarrow> nat option" where
  "py_find [] sub = (if sub = [] then Some 0 else None)"
| "py_find (c # s) sub =
     (if take (length sub) (c # s) = sub then Some 0 else map_option Suc (py_find s sub))"

text \<open>
  The device file of one sensor over time: what the \<open>k\<close>-th call of \<^verbatim>\<open>read_temp_raw\<close>
  returns, the lines of the file or \<open>None\<close> when it cannot be read.
\<close>

type_synonym sensor = "nat \<Rightarrow> string list option"

definition read_temp_raw :: "sensor \<Rightarrow> nat \<Rightarrow> string list option" where
  "read_temp_raw dev k = dev k"

text \<open>
  The \<^verbatim>\<open>while\<close> loop of \<^verbatim>\<open>read_temp\<close>: as long as the first line does not end in
  \<^verbatim>\<open>YES\<close>, sleep 0.2 seconds and read again; there is no counter and no deadline. \<open>k\<close>
  counts the reads made so far. The value \<open>None\<close> of the function is a loop that never
  ends; \<open>Some (None, k)\<close> is the return of \<^verbatim>\<open>None\<close> after \<open>k\<close> reads.
\<close>

partial_function (option) await_ready ::
  "sensor \<Rightarrow> nat \<Rightarrow> string list \<Rightarrow> (string list option \<times> nat) option" where
  "await_ready dev k lines =
     (case lines of
        [] \<Rightarrow> Some (None, k)
      | l0 # _ \<Rightarrow>
          if last3 (strip l0) \<noteq> ''YES'' then
            (case read_temp_raw dev k of
               None \<Rightarrow> Some (None, Suc k)
             | Some [] \<Rightarrow> Some (None, Suc k)
             | Some (l # ls) \<Rightarrow> await_ready dev (Suc k) (l # ls))
          else Some (Some lines, k))"

text \<open>
  The lines after the loop. Python's \<^verbatim>\<open>float\<close> and its division are not modelled: the
  parameter \<open>celsius\<close> stands for the expression \<^verbatim>\<open>float(temp_string) / 1000.0\<close>, the
  float it evaluates to or \<open>None\<close> when \<^verbatim>\<open>float\<close> raises \<^verbatim>\<open>ValueError\<close>. A file of one
  line raises \<^verbatim>\<open>IndexError\<close> at \<^verbatim>\<open>lines[1]\<close>. Both exceptions are caught by the
  \<^verbatim>\<open>except\<close> of \<^verbatim>\<open>read_temp\<close>, which returns \<^verbatim>\<open>None\<close>.
\<close>

definition parse_temp :: "(string \<Rightarrow> reading option) \<Rightarrow> string list \<Rightarrow> reading option" where
  "parse_temp celsius lines =
     (case lines of
        _ # l1 # _ \<Rightarrow>
          (case py_find l1 ''t='' of
             None \<Rightarrow> None
           | Some equals_pos \<Rightarrow> celsius (drop (equals_pos + 2) l1))
      | _ \<Rightarrow> None)"

text \<open>
  \<^verbatim>\<open>read_temp\<close> on one sensor: \<open>None\<close> when it never returns, otherwise what it returns
  (a reading or \<^verbatim>\<open>None\<close>) and the number of times it read the file.
\<close>

definition read_temp :: "(string \<Rightarrow> reading option) \<Rightarrow> sensor \<Rightarrow> (reading option \<times> nat) option" where
  "read_temp celsius dev =
     (case read_temp_raw dev 0 of
        None \<Rightarrow> Some (None, 1)
      | Some [] \<Rightarrow> Some (None, 1)
      | Some (l # ls) \<Rightarrow>
          (case await_ready dev 1 (l # ls) of
             None \<Rightarrow> None
           | Some (None, k) \<Rightarrow> Some (None, k)
           | Some (Some ready, k) \<Rightarrow> Some (parse_temp celsius ready, k)))"

text \<open>
  A read after which \<^verbatim>\<open>read_temp\<close> stops waiting: no lines, or a first line ending
  in \<^verbatim>\<open>YES\<close>.
\<close>

definition settled :: "string list option \<Rightarrow> bool" where
  "settled r =
     (case r of
        None \<Rightarrow> True
      | Some [] \<Rightarrow> True
      | Some (l0 # _) \<Rightarrow> last3 (strip l0) = ''YES'')"

section \<open>Scenarios\<close>

text \<open>
  Concrete states for the worked examples below. All start from the built-in defaults
  right after \<^verbatim>\<open>__init__\<close>; the first control cycle runs at clock reading 10.
\<close>

definition idle_app :: app where
  "idle_app = init_app DEFAULT_SETTINGS"

text \<open>Room 1 at its defaults reads 26.0 and is switched to cooling by the first cycle.\<close>

definition scenario_a :: app where
  "scenario_a = (init_app DEFAULT_SETTINGS)\<lparr>temperatures := [''room1'' \<mapsto> Finite 26]\<rparr>"

definition scenario_a_cooling :: app where
  "scenario_a_cooling =
     scenario_a\<lparr>room_states := (room_states scenario_a)
                  (''room1'' := \<lparr>cooling = True, heating = False\<rparr>),
                last_control_update := 10\<rparr>"

text \<open>The next poll of room 1 gives 24.0, inside the band and above \<open>max_temp - 3 = 22\<close>.\<close>

definition scenario_a_24 :: app where
  "scenario_a_24 = scenario_a_cooling\<lparr>temperatures := [''room1'' \<mapsto> Finite 24]\<rparr>"

text \<open>Room 2 has manual heat switched on; without and with a reading.\<close>

definition scenario_b :: app where
  "scenario_b =
     (init_app DEFAULT_SETTINGS)
       \<lparr>settings := DEFAULT_SETTINGS(''room2'' \<mapsto> default_room\<lparr>manual_heat := True\<rparr>)\<rparr>"

definition scenario_b_reading :: app where
  "scenario_b_reading = scenario_b\<lparr>temperatures := [''room2'' \<mapsto> Finite 21]\<rparr>"

definition scenario_b_heating :: app where
  "scenario_b_heating =
     scenario_b_reading\<lparr>room_states := (room_states scenario_b_reading)
                          (''room2'' := \<lparr>cooling = False, heating = True\<rparr>),
                        last_control_update := 10\<rparr>"

text \<open>
  Room 1 with a band of one degree, 24 to 25: it reads 26.0 and starts cooling, then reads
  23.0, which is above \<open>max_temp - 3 = 22\<close> and below \<open>min_temp\<close>.
\<close>

definition narrow_band :: app where
  "narrow_band =
     (init_app DEFAULT_SETTINGS)
       \<lparr>settings := DEFAULT_SETTINGS(''room1'' \<mapsto> default_room\<lparr>min_temp := 24\<rparr>),
        temperatures := [''room1'' \<mapsto> Finite 26]\<rparr>"

definition narrow_band_cooling :: app where
  "narrow_band_cooling =
     narrow_band\<lparr>room_states := (room_states narrow_band)
                   (''room1'' := \<lparr>cooling = True, heating = False\<rparr>),
                 last_control_update := 10,
                 temperatures := [''room1'' \<mapsto> Finite 23]\<rparr>"

definition narrow_band_heating :: app where
  "narrow_band_heating =
     narrow_band_cooling\<lparr>room_states := (room_states narrow_band_cooling)
                           (''room1'' := \<lparr>cooling = False, heating = True\<rparr>),
                         last_control_update := 20\<rparr>"

text \<open>Room 5 reads 26.0 while the AC device has been closed, so its commands fail.\<close>

definition scenario_d :: app where
  "scenario_d = (init_app DEFAULT_SETTINGS)\<lparr>temperatures := [''room5'' \<mapsto> Finite 26]\<rparr>"

definition gpio_ac_fault :: gpiozero where
  "gpio_ac_fault =
     grfin_gpio_ready\<lparr>relay_devices :=
       AList.update ''ac'' \<lparr>dev_pin = 17, dev_closed = True, dev_on = False\<rparr>
         (relay_devices grfin_gpio_ready)\<rparr>"

definition gpio_ac_fault_room5_on :: gpiozero where
  "gpio_ac_fault_room5_on = snd (grfin_set_relay ''room5'' True gpio_ac_fault)"

text \<open>The hardware of either variant with the AC relay switched on.\<close>

definition grfin_ac_on :: gpiozero where
  "grfin_ac_on = snd (grfin_set_relay ''ac'' True grfin_gpio_ready)"


text \<open>The gpiozero devices after room 1 and the AC have been switched on.\<close>

definition grfin_room1_cooling :: gpiozero where
  "grfin_room1_cooling =
     snd (grfin_set_relay ''ac'' True (snd (grfin_set_relay ''room1'' True grfin_gpio_ready)))"

text \<open>The gpiod lines after room 1 and the AC have been switched on.\<close>

definition ded_room1_cooling :: gpiod where
  "ded_room1_cooling = snd (ded_sink ''ac'' True (snd (ded_sink ''room1'' True ded_gpio_ready)))"

text \<open>A disk without a settings file, writable and write-protected.\<close>

definition fresh_disk :: disk where
  "fresh_disk = \<lparr>settings_file = Missing, writable = True\<rparr>"


text \<open>
  A settings screen open on room 1, whose band is 24 to 25, and on room 2, which has the
  defaults.
\<close>

definition editing_room1 :: app where
  "editing_room1 =
     (init_app DEFAULT_SETTINGS)
       \<lparr>settings := DEFAULT_SETTINGS(''room1'' \<mapsto> default_room\<lparr>min_temp := 24\<rparr>),
        current_screen := SettingsScreen, selected_room := Some ''room1''\<rparr>"

definition editing_room2 :: app where
  "editing_room2 = editing_room1\<lparr>selected_room := Some ''room2''\<rparr>"

text \<open>A settings file that was written without room 3.\<close>

definition without_room3 :: "string \<rightharpoonup> room_settings" where
  "without_room3 =
     map_of [(''room1'', default_room), (''room2'', default_room),
             (''room4'', default_room), (''room5'', default_room)]"

text \<open>
  Sensor files: one that never reports the conversion as ready, one that cannot be read
  any more at the third read, and one that is ready at the second read.
\<close>

definition never_ready :: sensor where
  "never_ready k =
     Some [''4b 01 4b 46 7f ff 05 10 e1 : crc=e1 NO'' @ [CHR 0x0A],
           ''4b 01 4b 46 7f ff 05 10 e1 t=20687'' @ [CHR 0x0A]]"

definition gone_on_third :: sensor where
  "gone_on_third k =
     (if k < 2 then
        Some [''4b 01 4b 46 7f ff 05 10 e1 : crc=e1 NO'' @ [CHR 0x0A],
              ''4b 01 4b 46 7f ff 05 10 e1 t=20687'' @ [CHR 0x0A]]
      else None)"

definition ready_on_second :: sensor where
  "ready_on_second k =
     (if k = 0 then
        Some [''4b 01 4b 46 7f ff 05 10 e1 : crc=e1 NO'' @ [CHR 0x0A],
              ''4b 01 4b 46 7f ff 05 10 e1 t=20687'' @ [CHR 0x0A]]
      else
        Some [''4b 01 4b 46 7f ff 05 10 e1 : crc=e1 YES'' @ [CHR 0x0A],
              ''4b 01 4b 46 7f ff 05 10 e1 t=20687'' @ [CHR 0x0A]])"

section \<open>The relay chain and the rule table\<close>

lemma relay_chain_ok:
  "relay_chain sr cs h = (ok, h', lg) \<Longrightarrow> ok = list_all cmd_ok lg"
  by (induction cs arbitrary: h ok h' lg)
     (auto simp: cmd_ok_def split: prod.splits bool.splits)

lemma relay_chain_targets:
  "relay_chain sr cs h = (ok, h', lg) \<Longrightarrow> map cmd_target lg = take (length lg) cs"
  by (induction cs arbitrary: h ok h' lg)
     (auto simp: cmd_target_def split: prod.splits bool.splits)

lemma relay_chain_complete:
  "relay_chain sr cs h = (True, h', lg) \<Longrightarrow> map cmd_target lg = cs"
  by (induction cs arbitrary: h h' lg)
     (auto simp: cmd_target_def split: prod.splits bool.splits)

lemma relay_chain_nonempty:
  "relay_chain sr cs h = (ok, h', lg) \<Longrightarrow> cs \<noteq> [] \<Longrightarrow> lg \<noteq> []"
  by (cases cs) (auto split: prod.splits bool.splits)

lemma attempt_cases:
  assumes "attempt sr cs st' r a h = (a', h', lg)"
  shows "(list_all cmd_ok lg \<and> map cmd_target lg = cs \<and>
            a' = a\<lparr>room_states := (room_states a)(r := st')\<rparr>) \<or>
         (\<not> list_all cmd_ok lg \<and> a' = a)"
proof -
  obtain ok h1 lg1 where rc: "relay_chain sr cs h = (ok, h1, lg1)"
    by (metis prod_cases3)
  with assms have eq: "lg = lg1" "a' = (if ok then a\<lparr>room_states := (room_states a)(r := st')\<rparr> else a)"
    by (auto simp: attempt_def)
  show ?thesis
  proof (cases ok)
    case True
    with rc relay_chain_ok[OF rc] relay_chain_complete[of sr cs h h1 lg1] eq show ?thesis by simp
  next
    case False
    with relay_chain_ok[OF rc] eq show ?thesis by simp
  qed
qed

lemma attempt_nonempty:
  "attempt sr cs st' r a h = (a', h', lg) \<Longrightarrow> cs \<noteq> [] \<Longrightarrow> lg \<noteq> []"
  by (auto simp: attempt_def split: prod.splits dest: relay_chain_nonempty)

lemma attempt_targets:
  "attempt sr cs st' r a h = (a', h', lg) \<Longrightarrow> map cmd_target lg = take (length lg) cs"
  by (auto simp: attempt_def split: prod.splits dest: relay_chain_targets)

lemma control_room_by_rule:
  "control_room sr room a h =
     (case temperatures a room of
        None \<Rightarrow> Inr (a, h, [])
      | Some temp \<Rightarrow>
          (case settings a room of
             None \<Rightarrow> Inl KeyError
           | Some cfg \<Rightarrow>
               (let st = room_states a room;
                    rl = fired_rule cfg temp st;
                    cs = rule_commands room rl st
                in if cs = [] then Inr (a, h, [])
                   else Inr (attempt sr cs (rule_commit rl st) room a h))))"
  by (simp add: control_room_def fired_rule_def Let_def split: option.splits)

text \<open>What one evaluation of a room does, in terms of the rule table.\<close>

lemma control_room_outcome:
  assumes "control_room sr r a h = Inr (a', h', lg)"
      and "temperatures a r = Some t" and "settings a r = Some cfg"
  defines "st \<equiv> room_states a r"
  defines "rl \<equiv> fired_rule cfg t st"
  shows "(lg = [] \<and> rule_commands r rl st = [] \<and> a' = a) \<or>
         (lg \<noteq> [] \<and> list_all cmd_ok lg \<and> map cmd_target lg = rule_commands r rl st \<and>
            a' = a\<lparr>room_states := (room_states a)(r := rule_commit rl st)\<rparr>) \<or>
         (lg \<noteq> [] \<and> \<not> list_all cmd_ok lg \<and>
            map cmd_target lg = take (length lg) (rule_commands r rl st) \<and> a' = a)"
proof (cases "rule_commands r rl st = []")
  case True
  with assms show ?thesis by (simp add: control_room_by_rule Let_def)
next
  case False
  with assms have att: "attempt sr (rule_commands r rl st) (rule_commit rl st) r a h = (a', h', lg)"
    by (simp add: control_room_by_rule Let_def)
  from attempt_nonempty[OF att False] attempt_cases[OF att] attempt_targets[OF att]
  show ?thesis by auto
qed

lemma fun_upd_same_state: "a\<lparr>room_states := (room_states a)(r := room_states a r)\<rparr> = a"
  by simp

lemma control_room_frame:
  assumes "control_room sr r a h = Inr (a', h', lg)"
  shows "\<exists>st'. a' = a\<lparr>room_states := (room_states a)(r := st')\<rparr>"
proof (cases "temperatures a r")
  case None
  with assms have "a' = a" by (simp add: control_room_def)
  then show ?thesis using fun_upd_same_state[of a r] by metis
next
  case (Some t)
  show ?thesis
  proof (cases "settings a r")
    case None
    with Some assms show ?thesis by (simp add: control_room_def)
  next
    case (Some cfg)
    from control_room_outcome[OF assms \<open>temperatures a r = Some t\<close> Some]
    show ?thesis using fun_upd_same_state[of a r] by metis
  qed
qed

lemma control_rooms_frame:
  "control_rooms sr rs a h = Inr (a', h', lgs) \<Longrightarrow>
     settings a' = settings a \<and> temperatures a' = temperatures a \<and>
     last_control_update a' = last_control_update a \<and>
     (\<forall>q. q \<notin> set rs \<longrightarrow> room_states a' q = room_states a q) \<and> map fst lgs = rs"
proof (induction rs arbitrary: a h a' h' lgs)
  case Nil
  then show ?case by simp
next
  case (Cons r rs)
  from Cons.prems obtain a1 h1 lg lgs1 where
    step: "control_room sr r a h = Inr (a1, h1, lg)" and
    rest: "control_rooms sr rs a1 h1 = Inr (a', h', lgs1)" and
    lgs: "lgs = (r, lg) # lgs1"
    by (auto split: sum.splits prod.splits)
  from control_room_frame[OF step] obtain st' where
    a1: "a1 = a\<lparr>room_states := (room_states a)(r := st')\<rparr>" by blast
  from Cons.IH[OF rest] a1 lgs show ?case by auto
qed

lemma control_rooms_locate:
  "distinct rs \<Longrightarrow> r \<in> set rs \<Longrightarrow> control_rooms sr rs a h = Inr (a', h', lgs) \<Longrightarrow>
     \<exists>a0 h0 a1 h1 lg.
       settings a0 = settings a \<and> temperatures a0 = temperatures a \<and>
       room_states a0 r = room_states a r \<and>
       control_room sr r a0 h0 = Inr (a1, h1, lg) \<and>
       room_states a1 r = room_states a' r \<and> map_of lgs r = Some lg"
proof (induction rs arbitrary: a h a' h' lgs)
  case Nil
  then show ?case by simp
next
  case (Cons x rs)
  from Cons.prems(3) obtain a1 h1 lg lgs1 where
    step: "control_room sr x a h = Inr (a1, h1, lg)" and
    rest: "control_rooms sr rs a1 h1 = Inr (a', h', lgs1)" and
    lgs: "lgs = (x, lg) # lgs1"
    by (auto split: sum.splits prod.splits)
  from control_room_frame[OF step] obtain st' where
    a1: "a1 = a\<lparr>room_states := (room_states a)(x := st')\<rparr>" by blast
  show ?case
  proof (cases "r = x")
    case True
    with Cons.prems(1) have "x \<notin> set rs" by simp
    with control_rooms_frame[OF rest] have "room_states a' x = room_states a1 x" by simp
    with step True lgs show ?thesis by fastforce
  next
    case False
    with Cons.prems have "distinct rs" "r \<in> set rs" by auto
    from Cons.IH[OF this rest] obtain a0 h0 a2 h2 lg2 where
      "settings a0 = settings a1" "temperatures a0 = temperatures a1"
      "room_states a0 r = room_states a1 r"
      "control_room sr r a0 h0 = Inr (a2, h2, lg2)"
      "room_states a2 r = room_states a' r" "map_of lgs1 r = Some lg2"
      by blast
    with a1 False lgs show ?thesis
      by (intro exI[of _ a0] exI[of _ h0] exI[of _ a2] exI[of _ h2] exI[of _ lg2]) auto
  qed
qed

lemma distinct_rooms: "distinct rooms"
  by (simp add: rooms_def sensor_ids_def)

lemma rooms_not_shared: "r \<in> set rooms \<Longrightarrow> r \<noteq> ''ac'' \<and> r \<noteq> ''heater_vent'' \<and> r \<noteq> ''supply''"
  by (auto simp: rooms_def sensor_ids_def)

lemma control_climate_closed:
  "\<not> current_time - last_control_update a \<ge> 10 \<Longrightarrow>
     control_climate sr current_time a h = Inr (a, h, [], [])"
  by (simp add: control_climate_def)

lemma control_climate_open:
  assumes "control_climate sr current_time a h = Inr (a', h', lgs, sh)"
      and "current_time - last_control_update a \<ge> 10"
  shows "\<exists>a1 h1. control_rooms sr rooms a h = Inr (a1, h1, lgs) \<and>
           a' = a1\<lparr>last_control_update := current_time\<rparr> \<and>
           sh = snd (ac_off sr a1 h1) @ snd (heat_off sr a1 (fst (ac_off sr a1 h1)))"
  using assms by (auto simp: control_climate_def split: sum.splits prod.splits)

text \<open>The evaluation of one room inside a cycle.\<close>

lemma cycle_locate:
  assumes "control_climate sr current_time a h = Inr (a', h', lgs, sh)"
      and "current_time - last_control_update a \<ge> 10" and "r \<in> set rooms"
  shows "\<exists>a0 h0 a1 h1 lg.
       settings a0 = settings a \<and> temperatures a0 = temperatures a \<and>
       room_states a0 r = room_states a r \<and>
       control_room sr r a0 h0 = Inr (a1, h1, lg) \<and>
       room_states a1 r = room_states a' r \<and> map_of lgs r = Some lg"
proof -
  from control_climate_open[OF assms(1,2)] obtain a1 h1 where
    rs: "control_rooms sr rooms a h = Inr (a1, h1, lgs)" and
    a': "a' = a1\<lparr>last_control_update := current_time\<rparr>" by blast
  from control_rooms_locate[OF distinct_rooms assms(3) rs] a' show ?thesis by simp
qed

lemma cycle_frame:
  assumes "control_climate sr current_time a h = Inr (a', h', lgs, sh)"
  shows "settings a' = settings a \<and> temperatures a' = temperatures a \<and>
         (\<forall>q. q \<notin> set rooms \<longrightarrow> room_states a' q = room_states a q)"
proof (cases "current_time - last_control_update a \<ge> 10")
  case True
  from control_climate_open[OF assms True] obtain a1 h1 where
    rs: "control_rooms sr rooms a h = Inr (a1, h1, lgs)" and
    a': "a' = a1\<lparr>last_control_update := current_time\<rparr>" by blast
  from control_rooms_frame[OF rs] a' show ?thesis by simp
next
  case False
  from control_climate_closed[OF False, of sr h] assms show ?thesis by simp
qed

text \<open>What a cycle does to one room, in terms of the rule table.\<close>

lemma cycle_room_skipped:
  assumes "control_climate sr current_time a h = Inr (a', h', lgs, sh)"
      and "current_time - last_control_update a \<ge> 10" and "r \<in> set rooms"
      and "temperatures a r = None"
  shows "map_of lgs r = Some [] \<and> room_states a' r = room_states a r"
proof -
  from cycle_locate[OF assms(1,2,3)] obtain a0 h0 a1 h1 lg where
    a0: "temperatures a0 = temperatures a" "room_states a0 r = room_states a r" and
    step: "control_room sr r a0 h0 = Inr (a1, h1, lg)" and
    fin: "room_states a1 r = room_states a' r" "map_of lgs r = Some lg"
    by blast
  from a0 assms(4) step have "a1 = a0" "lg = []" by (simp_all add: control_room_def)
  with a0 fin show ?thesis by simp
qed

lemma cycle_room_outcome:
  assumes "control_climate sr current_time a h = Inr (a', h', lgs, sh)"
      and "current_time - last_control_update a \<ge> 10" and "r \<in> set rooms"
      and "temperatures a r = Some t" and "settings a r = Some cfg"
      and "st = room_states a r" and "rl = fired_rule cfg t st"
  shows "\<exists>lg. map_of lgs r = Some lg \<and>
        ((lg = [] \<and> rule_commands r rl st = [] \<and> room_states a' r = st) \<or>
         (lg \<noteq> [] \<and> list_all cmd_ok lg \<and> map cmd_target lg = rule_commands r rl st \<and>
            room_states a' r = rule_commit rl st) \<or>
         (lg \<noteq> [] \<and> \<not> list_all cmd_ok lg \<and>
            map cmd_target lg = take (length lg) (rule_commands r rl st) \<and>
            room_states a' r = st))"
proof -
  from cycle_locate[OF assms(1,2,3)] obtain a0 h0 a1 h1 lg where
    a0: "settings a0 = settings a" "temperatures a0 = temperatures a"
        "room_states a0 r = room_states a r" and
    step: "control_room sr r a0 h0 = Inr (a1, h1, lg)" and
    fin: "room_states a1 r = room_states a' r" "map_of lgs r = Some lg"
    by blast
  from a0 assms(4,5) have "temperatures a0 r = Some t" "settings a0 r = Some cfg" by simp_all
  from control_room_outcome[OF step this] a0(3) assms(6,7)
  have "(lg = [] \<and> rule_commands r rl st = [] \<and> a1 = a0) \<or>
        (lg \<noteq> [] \<and> list_all cmd_ok lg \<and> map cmd_target lg = rule_commands r rl st \<and>
           a1 = a0\<lparr>room_states := (room_states a0)(r := rule_commit rl st)\<rparr>) \<or>
        (lg \<noteq> [] \<and> \<not> list_all cmd_ok lg \<and>
           map cmd_target lg = take (length lg) (rule_commands r rl st) \<and> a1 = a0)"
    by simp
  then have "(lg = [] \<and> rule_commands r rl st = [] \<and> room_states a1 r = st) \<or>
        (lg \<noteq> [] \<and> list_all cmd_ok lg \<and> map cmd_target lg = rule_commands r rl st \<and>
           room_states a1 r = rule_commit rl st) \<or>
        (lg \<noteq> [] \<and> \<not> list_all cmd_ok lg \<and>
           map cmd_target lg = take (length lg) (rule_commands r rl st) \<and> room_states a1 r = st)"
    using a0(3) assms(6) by auto
  with fin show ?thesis by simp
qed

section \<open>Worked cycles\<close>

text \<open>
  The scenarios evaluated: each equation is one call of \<^verbatim>\<open>control_climate\<close> on the gpiozero
  sink, with the state, the hardware and the commands that come out.
\<close>

lemmas cycle_eval = control_climate_def rooms_def sensor_ids_def control_room_def attempt_def
  ac_off_def heat_off_def grfin_set_relay_def grfin_gpio_ready_def grfin_gpio_simulated_def
  grfin_RELAY_PINS_def DEFAULT_SETTINGS_def default_room_def init_app_def

lemma room_names:
  "''room1'' \<in> set rooms" "''room2'' \<in> set rooms" "''room3'' \<in> set rooms"
  "''room4'' \<in> set rooms" "''room5'' \<in> set rooms"
  by (simp_all add: rooms_def sensor_ids_def)

lemma scenario_a_cycle:
  "control_climate grfin_set_relay 10 scenario_a grfin_gpio_simulated =
     Inr (scenario_a_cooling, grfin_gpio_simulated,
          [(''room1'', [(''room1'', True, True), (''ac'', True, True)]),
           (''room2'', []), (''room3'', []), (''room4'', []), (''room5'', [])],
          [(''heater_vent'', False, True), (''supply'', False, True)])"
  by (simp add: cycle_eval scenario_a_def scenario_a_cooling_def)

text \<open>
  On the devices themselves: an idle cycle switches off an AC relay that was left on, and
  the first cycle of scenario A switches on room 1 and the AC.
\<close>

lemma idle_stuck_ac_cycle:
  "control_climate grfin_set_relay 10 idle_app grfin_ac_on =
     Inr (idle_app\<lparr>last_control_update := 10\<rparr>, grfin_gpio_ready,
          [(''room1'', []), (''room2'', []), (''room3'', []), (''room4'', []), (''room5'', [])],
          [(''ac'', False, True), (''heater_vent'', False, True), (''supply'', False, True)])"
  by (simp add: cycle_eval idle_app_def grfin_ac_on_def)

lemma scenario_a_cycle_ready:
  "control_climate grfin_set_relay 10 scenario_a grfin_gpio_ready =
     Inr (scenario_a_cooling, grfin_room1_cooling,
          [(''room1'', [(''room1'', True, True), (''ac'', True, True)]),
           (''room2'', []), (''room3'', []), (''room4'', []), (''room5'', [])],
          [(''heater_vent'', False, True), (''supply'', False, True)])"
  by (simp add: cycle_eval scenario_a_def scenario_a_cooling_def grfin_room1_cooling_def)

lemmas ded_eval = control_climate_def rooms_def sensor_ids_def control_room_def attempt_def
  ac_off_def heat_off_def ded_sink_def ded_set_relay_def ded_gpio_ready_def
  ded_RELAY_PINS_def DEFAULT_SETTINGS_def default_room_def init_app_def

lemma idle_cycle_ded:
  "control_climate ded_sink 10 idle_app ded_gpio_ready =
     Inr (idle_app\<lparr>last_control_update := 10\<rparr>, ded_gpio_ready,
          [(''room1'', []), (''room2'', []), (''room3'', []), (''room4'', []), (''room5'', [])],
          [(''ac'', False, True), (''heater_vent'', False, True), (''supply'', False, True)])"
  by (simp add: ded_eval idle_app_def)

lemma scenario_a_cycle_ded:
  "control_climate ded_sink 10 scenario_a ded_gpio_ready =
     Inr (scenario_a_cooling, ded_room1_cooling,
          [(''room1'', [(''room1'', True, True), (''ac'', True, True)]),
           (''room2'', []), (''room3'', []), (''room4'', []), (''room5'', [])],
          [(''heater_vent'', False, True), (''supply'', False, True)])"
  by (simp add: ded_eval scenario_a_def scenario_a_cooling_def ded_room1_cooling_def)

lemma scenario_a_24_cycle:
  "control_climate grfin_set_relay 20 scenario_a_24 grfin_gpio_simulated =
     Inr (scenario_a_24\<lparr>last_control_update := 20\<rparr>, grfin_gpio_simulated,
          [(''room1'', []), (''room2'', []), (''room3'', []), (''room4'', []), (''room5'', [])],
          [(''heater_vent'', False, True), (''supply'', False, True)])"
  by (simp add: cycle_eval scenario_a_def scenario_a_cooling_def scenario_a_24_def)

lemma scenario_b_cycle:
  "control_climate grfin_set_relay 10 scenario_b grfin_gpio_ready =
     Inr (scenario_b\<lparr>last_control_update := 10\<rparr>, grfin_gpio_ready,
          [(''room1'', []), (''room2'', []), (''room3'', []), (''room4'', []), (''room5'', [])],
          [(''ac'', False, True), (''heater_vent'', False, True), (''supply'', False, True)])"
  by (simp add: cycle_eval scenario_b_def)

lemma scenario_b_reading_cycle:
  "control_climate grfin_set_relay 10 scenario_b_reading grfin_gpio_simulated =
     Inr (scenario_b_heating, grfin_gpio_simulated,
          [(''room1'', []),
           (''room2'', [(''room2'', True, True), (''heater_vent'', True, True),
                        (''supply'', True, True)]),
           (''room3'', []), (''room4'', []), (''room5'', [])],
          [(''ac'', False, True)])"
  by (simp add: cycle_eval scenario_b_def scenario_b_reading_def scenario_b_heating_def)

lemma narrow_band_cycle1:
  "control_climate grfin_set_relay 10 narrow_band grfin_gpio_simulated =
     Inr (narrow_band_cooling\<lparr>temperatures := temperatures narrow_band\<rparr>, grfin_gpio_simulated,
          [(''room1'', [(''room1'', True, True), (''ac'', True, True)]),
           (''room2'', []), (''room3'', []), (''room4'', []), (''room5'', [])],
          [(''heater_vent'', False, True), (''supply'', False, True)])"
  by (simp add: cycle_eval narrow_band_def narrow_band_cooling_def)

lemma narrow_band_cycle2:
  "control_climate grfin_set_relay 20 narrow_band_cooling grfin_gpio_simulated =
     Inr (narrow_band_heating, grfin_gpio_simulated,
          [(''room1'', [(''room1'', True, True), (''heater_vent'', True, True),
                        (''supply'', True, True)]),
           (''room2'', []), (''room3'', []), (''room4'', []), (''room5'', [])],
          [(''ac'', False, True)])"
  by (simp add: cycle_eval narrow_band_def narrow_band_cooling_def narrow_band_heating_def)

lemma scenario_d_cycle1:
  "control_climate grfin_set_relay 10 scenario_d gpio_ac_fault =
     Inr (scenario_d\<lparr>last_control_update := 10\<rparr>, gpio_ac_fault_room5_on,
          [(''room1'', []), (''room2'', []), (''room3'', []), (''room4'', []),
           (''room5'', [(''room5'', True, True), (''ac'', True, False)])],
          [(''ac'', False, False), (''heater_vent'', False, True), (''supply'', False, True)])"
  by (simp add: cycle_eval scenario_d_def gpio_ac_fault_def gpio_ac_fault_room5_on_def)

lemma scenario_d_cycle2:
  "control_climate grfin_set_relay 20 (scenario_d\<lparr>last_control_update := 10\<rparr>) gpio_ac_fault_room5_on =
     Inr (scenario_d\<lparr>last_control_update := 20\<rparr>, gpio_ac_fault_room5_on,
          [(''room1'', []), (''room2'', []), (''room3'', []), (''room4'', []),
           (''room5'', [(''room5'', True, True), (''ac'', True, False)])],
          [(''ac'', False, False), (''heater_vent'', False, True), (''supply'', False, True)])"
  by (simp add: cycle_eval scenario_d_def gpio_ac_fault_def gpio_ac_fault_room5_on_def)

section \<open>Properties of the control cycle\<close>

lemma rule_commit_exclusive: "exclusive st \<Longrightarrow> exclusive (rule_commit rl st)"
  by (cases rl) (auto simp: exclusive_def)

lemma control_room_exclusive:
  assumes "control_room sr r a h = Inr (a', h', lg)" and "\<forall>q. exclusive (room_states a q)"
  shows "\<forall>q. exclusive (room_states a' q)"
proof (cases "temperatures a r")
  case None
  with assms show ?thesis by (simp add: control_room_def)
next
  case (Some t)
  show ?thesis
  proof (cases "settings a r")
    case None
    with Some assms show ?thesis by (simp add: control_room_def)
  next
    case (Some cfg)
    from control_room_outcome[OF assms(1) \<open>temperatures a r = Some t\<close> Some] assms(2)
    show ?thesis by (auto simp: rule_commit_exclusive)
  qed
qed

lemma control_rooms_exclusive:
  "control_rooms sr rs a h = Inr (a', h', lgs) \<Longrightarrow> \<forall>q. exclusive (room_states a q) \<Longrightarrow>
     \<forall>q. exclusive (room_states a' q)"
proof (induction rs arbitrary: a h a' h' lgs)
  case Nil
  then show ?case by simp
next
  case (Cons r rs)
  from Cons.prems(1) obtain a1 h1 lg lgs1 where
    step: "control_room sr r a h = Inr (a1, h1, lg)" and
    rest: "control_rooms sr rs a1 h1 = Inr (a', h', lgs1)"
    by (auto split: sum.splits prod.splits)
  from Cons.IH[OF rest control_room_exclusive[OF step Cons.prems(2)]] show ?case .
qed

text \<open>
  Claim C2. For every room at most one of \<open>heating\<close> and \<open>cooling\<close> is true: both flags
  start false in \<^verbatim>\<open>__init__\<close>, and a call of \<^verbatim>\<open>control_climate\<close> that returns, whatever
  the sink, the hardware and the clock, keeps the two flags of every room exclusive.
\<close>

theorem heating_cooling_exclusive:
  "(\<forall>r. exclusive (room_states (init_app loaded) r)) \<and>
   ((\<forall>r. exclusive (room_states a r)) \<and>
      control_climate sr current_time a h = Inr (a', h', lgs, sh) \<longrightarrow>
    (\<forall>r. exclusive (room_states a' r)))"
proof (intro conjI impI)
  show "\<forall>r. exclusive (room_states (init_app loaded) r)"
    by (simp add: init_app_def exclusive_def)
next
  assume "(\<forall>r. exclusive (room_states a r)) \<and>
      control_climate sr current_time a h = Inr (a', h', lgs, sh)"
  then have inv: "\<forall>r. exclusive (room_states a r)"
    and cycle: "control_climate sr current_time a h = Inr (a', h', lgs, sh)"
    by simp_all
  show "\<forall>r. exclusive (room_states a' r)"
  proof (cases "current_time - last_control_update a \<ge> 10")
    case True
    from control_climate_open[OF cycle True] obtain a1 h1 where
      rs: "control_rooms sr rooms a h = Inr (a1, h1, lgs)" and
      a': "a' = a1\<lparr>last_control_update := current_time\<rparr>" by blast
    from control_rooms_exclusive[OF rs inv] a' show ?thesis by simp
  next
    case False
    from control_climate_closed[OF False, of sr h] cycle inv show ?thesis by simp
  qed
qed

text \<open>
  Claim C2 at work: the first cycle of scenario A switches room 1 to cooling, on either
  sink, and no room has both flags set afterwards.
\<close>

theorem heating_cooling_exclusive_witness:
  "(\<forall>r. exclusive (room_states (init_app DEFAULT_SETTINGS) r)) \<and>
   (\<forall>r. exclusive (room_states scenario_a r)) \<and>
   control_climate grfin_set_relay 10 scenario_a grfin_gpio_simulated =
     Inr (scenario_a_cooling, grfin_gpio_simulated,
          [(''room1'', [(''room1'', True, True), (''ac'', True, True)]),
           (''room2'', []), (''room3'', []), (''room4'', []), (''room5'', [])],
          [(''heater_vent'', False, True), (''supply'', False, True)]) \<and>
   control_climate ded_sink 10 scenario_a ded_gpio_ready =
     Inr (scenario_a_cooling, ded_room1_cooling,
          [(''room1'', [(''room1'', True, True), (''ac'', True, True)]),
           (''room2'', []), (''room3'', []), (''room4'', []), (''room5'', [])],
          [(''heater_vent'', False, True), (''supply'', False, True)]) \<and>
   (\<forall>r. exclusive (room_states scenario_a_cooling r))"
proof -
  have pre: "\<forall>r. exclusive (room_states scenario_a r)"
    by (simp add: scenario_a_def init_app_def exclusive_def)
  from heating_cooling_exclusive[of DEFAULT_SETTINGS scenario_a grfin_set_relay 10
         grfin_gpio_simulated scenario_a_cooling grfin_gpio_simulated
         "[(''room1'', [(''room1'', True, True), (''ac'', True, True)]),
           (''room2'', []), (''room3'', []), (''room4'', []), (''room5'', [])]"
         "[(''heater_vent'', False, True), (''supply'', False, True)]"]
       pre scenario_a_cycle scenario_a_cycle_ded
  show ?thesis by simp
qed

text \<open>
  Claim C10. A room of the room list whose reading is absent and whose manual flags are both
  false keeps its \<open>heating\<close> and \<open>cooling\<close> flags over a control cycle, and the cycle
  issues no relay command in the evaluation of that room.
\<close>

theorem missing_reading_skips_room:
  assumes "control_climate sr current_time a h = Inr (a', h', lgs, sh)"
      and "current_time - last_control_update a \<ge> 10"
      and "r \<in> set rooms"
      and "temperatures a r = None"
      and "settings a r = Some cfg" and "\<not> manual_heat cfg" and "\<not> manual_cool cfg"
  shows "room_states a' r = room_states a r \<and> map_of lgs r = Some []"
  using cycle_room_skipped[OF assms(1,2,3,4)] by simp

text \<open>
  Claim C10 at work, on the gpiod sink: right after start-up no room has a reading; the
  first cycle leaves room 3 as it is and issues no command for it.
\<close>

theorem missing_reading_skips_room_witness:
  "control_climate ded_sink 10 idle_app ded_gpio_ready =
     Inr (idle_app\<lparr>last_control_update := 10\<rparr>, ded_gpio_ready,
          [(''room1'', []), (''room2'', []), (''room3'', []), (''room4'', []), (''room5'', [])],
          [(''ac'', False, True), (''heater_vent'', False, True), (''supply'', False, True)]) \<and>
   10 - last_control_update idle_app \<ge> 10 \<and>
   ''room3'' \<in> set rooms \<and>
   temperatures idle_app ''room3'' = None \<and>
   settings idle_app ''room3'' = Some default_room \<and>
   \<not> manual_heat default_room \<and> \<not> manual_cool default_room \<and>
   room_states (idle_app\<lparr>last_control_update := 10\<rparr>) ''room3'' = room_states idle_app ''room3'' \<and>
   map_of [(''room1'', []), (''room2'', []), (''room3'', []), (''room4'', []), (''room5'', [])]
     ''room3'' = Some ([] :: cmd list)"
proof -
  have gate: "10 - last_control_update idle_app \<ge> 10"
    by (simp add: idle_app_def init_app_def)
  have temp: "temperatures idle_app ''room3'' = None" by (simp add: idle_app_def init_app_def)
  have cfg: "settings idle_app ''room3'' = Some default_room"
    by (simp add: idle_app_def init_app_def DEFAULT_SETTINGS_def)
  have mh: "\<not> manual_heat default_room" and mc: "\<not> manual_cool default_room"
    by (simp_all add: default_room_def)
  from missing_reading_skips_room[OF idle_cycle_ded gate room_names(3) temp cfg mh mc]
       idle_cycle_ded gate room_names(3) temp cfg mh mc
  show ?thesis by simp
qed

text \<open>
  Claim C1, as amended. A room with \<open>manual_heat\<close> set that has a reading is heating and
  not cooling after a control cycle in which the relay commands issued for it succeeded; a
  room with \<open>manual_cool\<close> set, \<open>manual_heat\<close> clear and a reading is cooling and not
  heating. A room without a reading is skipped before the manual flags are looked at: its
  flags stay as they were and no command is issued for it.
\<close>

theorem manual_request_needs_reading:
  assumes "control_climate sr current_time a h = Inr (a', h', lgs, sh)"
      and "current_time - last_control_update a \<ge> 10"
      and "r \<in> set rooms"
      and "settings a r = Some cfg"
      and "exclusive (room_states a r)"
      and "map_of lgs r = Some lg" and "list_all cmd_ok lg"
  shows "(temperatures a r \<noteq> None \<and> manual_heat cfg \<longrightarrow>
            heating (room_states a' r) \<and> \<not> cooling (room_states a' r)) \<and>
         (temperatures a r \<noteq> None \<and> \<not> manual_heat cfg \<and> manual_cool cfg \<longrightarrow>
            cooling (room_states a' r) \<and> \<not> heating (room_states a' r)) \<and>
         (temperatures a r = None \<longrightarrow> room_states a' r = room_states a r \<and> lg = [])"
proof (cases "temperatures a r")
  case None
  from cycle_room_skipped[OF assms(1,2,3) None] assms(6) None show ?thesis by simp
next
  case (Some t)
  define st where "st = room_states a r"
  define rl where "rl = fired_rule cfg t st"
  from cycle_room_outcome[OF assms(1,2,3) Some assms(4) st_def rl_def] assms(6,7)
  have out: "(rule_commands r rl st = [] \<and> room_states a' r = st) \<or>
             room_states a' r = rule_commit rl st"
    by auto
  have mh: "manual_heat cfg \<Longrightarrow> rl = ManualHeat"
    and mc: "\<not> manual_heat cfg \<Longrightarrow> manual_cool cfg \<Longrightarrow> rl = ManualCool"
    by (simp_all add: rl_def fired_rule_def)
  from assms(5) have ex: "\<not> (heating st \<and> cooling st)" by (simp add: st_def exclusive_def)
  have "manual_heat cfg \<Longrightarrow> heating (room_states a' r) \<and> \<not> cooling (room_states a' r)"
    using out mh ex by (auto split: if_splits)
  moreover
  have "\<not> manual_heat cfg \<Longrightarrow> manual_cool cfg \<Longrightarrow>
          cooling (room_states a' r) \<and> \<not> heating (room_states a' r)"
    using out mc ex by (auto split: if_splits)
  ultimately show ?thesis using Some by simp
qed

text \<open>
  Claim C1 as amended at work: room 2 with manual heat and a reading of 21.0 is heating
  after the cycle, all three commands having succeeded.
\<close>

theorem manual_request_needs_reading_witness:
  "control_climate grfin_set_relay 10 scenario_b_reading grfin_gpio_simulated =
     Inr (scenario_b_heating, grfin_gpio_simulated,
          [(''room1'', []),
           (''room2'', [(''room2'', True, True), (''heater_vent'', True, True),
                        (''supply'', True, True)]),
           (''room3'', []), (''room4'', []), (''room5'', [])],
          [(''ac'', False, True)]) \<and>
   10 - last_control_update scenario_b_reading \<ge> 10 \<and>
   ''room2'' \<in> set rooms \<and>
   settings scenario_b_reading ''room2'' = Some (default_room\<lparr>manual_heat := True\<rparr>) \<and>
   exclusive (room_states scenario_b_reading ''room2'') \<and>
   list_all cmd_ok [(''room2'', True, True), (''heater_vent'', True, True), (''supply'', True, True)] \<and>
   temperatures scenario_b_reading ''room2'' = Some (Finite 21) \<and>
   heating (room_states scenario_b_heating ''room2'') \<and>
   \<not> cooling (room_states scenario_b_heating ''room2'')"
proof -
  have gate: "10 - last_control_update scenario_b_reading \<ge> 10"
    by (simp add: scenario_b_reading_def scenario_b_def init_app_def)
  have cfg: "settings scenario_b_reading ''room2'' = Some (default_room\<lparr>manual_heat := True\<rparr>)"
    by (simp add: scenario_b_reading_def scenario_b_def init_app_def)
  have ex: "exclusive (room_states scenario_b_reading ''room2'')"
    by (simp add: scenario_b_reading_def scenario_b_def init_app_def exclusive_def)
  have lg: "map_of [(''room1'', []),
           (''room2'', [(''room2'', True, True), (''heater_vent'', True, True),
                        (''supply'', True, True)]),
           (''room3'', []), (''room4'', []), (''room5'', [])] ''room2'' =
         Some [(''room2'', True, True), (''heater_vent'', True, True), (''supply'', True, True)]"
    by simp
  have ok: "list_all cmd_ok
      [(''room2'', True, True), (''heater_vent'', True, True), (''supply'', True, True)]"
    by (simp add: cmd_ok_def)
  have temp: "temperatures scenario_b_reading ''room2'' = Some (Finite 21)"
    by (simp add: scenario_b_reading_def)
  from manual_request_needs_reading[OF scenario_b_reading_cycle gate room_names(2) cfg ex lg ok]
       scenario_b_reading_cycle gate room_names(2) cfg ex ok temp
  show ?thesis by simp
qed

text \<open>
  Claim C1 as stated fails (scenario B): room 2 has manual heat set and no reading, every
  relay command of the cycle succeeds, and room 2 is not heating afterwards; no command was
  issued for it.
\<close>

theorem manual_heat_without_reading_counterexample:
  "settings scenario_b ''room2'' = Some (default_room\<lparr>manual_heat := True\<rparr>) \<and>
   temperatures scenario_b ''room2'' = None \<and>
   control_climate grfin_set_relay 10 scenario_b grfin_gpio_ready =
     Inr (scenario_b\<lparr>last_control_update := 10\<rparr>, grfin_gpio_ready,
          [(''room1'', []), (''room2'', []), (''room3'', []), (''room4'', []), (''room5'', [])],
          [(''ac'', False, True), (''heater_vent'', False, True), (''supply'', False, True)]) \<and>
   \<not> heating (room_states (scenario_b\<lparr>last_control_update := 10\<rparr>) ''room2'')"
  using scenario_b_cycle by (simp add: scenario_b_def init_app_def)

lemma gt_not_le: "gt_int t i \<Longrightarrow> \<not> le_int t i"
  by (cases t) auto

lemma lt_not_ge: "lt_int t i \<Longrightarrow> \<not> ge_int t i"
  by (cases t) auto

lemma gt_mono:
  assumes "gt_int t i" and "j \<le> i"
  shows "\<not> lt_int t j"
proof (cases t)
  case (Finite q)
  from assms(2) have "(of_int j :: rat) \<le> of_int i" by simp
  with assms(1) Finite show ?thesis by simp
qed (use assms in auto)

lemma lt_mono:
  assumes "lt_int t i" and "i \<le> j"
  shows "\<not> gt_int t j"
proof (cases t)
  case (Finite q)
  from assms(2) have "(of_int i :: rat) \<le> of_int j" by simp
  with assms(1) Finite show ?thesis by simp
qed (use assms in auto)

lemma stays_cooling:
  "\<not> manual_heat cfg \<Longrightarrow> \<not> manual_cool cfg \<Longrightarrow> cooling st \<Longrightarrow>
   \<not> le_int t (max_temp cfg - 3) \<Longrightarrow> \<not> lt_int t (min_temp cfg) \<Longrightarrow>
   cooling (rule_commit (fired_rule cfg t st) st)"
  by (simp add: fired_rule_def)

lemma stays_heating:
  "\<not> manual_heat cfg \<Longrightarrow> \<not> manual_cool cfg \<Longrightarrow> heating st \<Longrightarrow>
   \<not> ge_int t (min_temp cfg + 3) \<Longrightarrow> \<not> gt_int t (max_temp cfg) \<Longrightarrow>
   heating (rule_commit (fired_rule cfg t st) st)"
  by (simp add: fired_rule_def)

lemma cycle_room_flags:
  assumes "control_climate sr current_time a h = Inr (a', h', lgs, sh)"
      and "r \<in> set rooms"
      and "temperatures a r = Some t" and "settings a r = Some cfg"
  shows "room_states a' r = room_states a r \<or>
         room_states a' r = rule_commit (fired_rule cfg t (room_states a r)) (room_states a r)"
proof (cases "current_time - last_control_update a \<ge> 10")
  case True
  from cycle_room_outcome[OF assms(1) True assms(2,3,4) refl refl] show ?thesis by auto
next
  case False
  from control_climate_closed[OF False, of sr h] assms(1) show ?thesis by simp
qed

text \<open>
  Claim C3, as amended. With both manual flags false and a reading present, a cooling room
  is still cooling after a control cycle while the reading is above \<open>max_temp - 3\<close> and not
  below \<open>min_temp\<close>; it leaves cooling only when the reading is at most \<open>max_temp - 3\<close> or
  below \<open>min_temp\<close>. When \<open>min_temp + 3 \<le> max_temp\<close> the second alternative cannot occur
  and the room stays cooling for every reading above \<open>max_temp - 3\<close>. Symmetrically a
  heating room leaves heating only when the reading is at least \<open>min_temp + 3\<close> or above
  \<open>max_temp\<close>.
\<close>

theorem hysteresis_band:
  assumes "control_climate sr current_time a h = Inr (a', h', lgs, sh)"
      and "r \<in> set rooms"
      and "settings a r = Some cfg" and "\<not> manual_heat cfg" and "\<not> manual_cool cfg"
      and "temperatures a r = Some t"
  shows "(cooling (room_states a r) \<longrightarrow>
           (gt_int t (max_temp cfg - 3) \<and> \<not> lt_int t (min_temp cfg) \<longrightarrow>
              cooling (room_states a' r)) \<and>
           (\<not> cooling (room_states a' r) \<longrightarrow>
              le_int t (max_temp cfg - 3) \<or> lt_int t (min_temp cfg)) \<and>
           (min_temp cfg + 3 \<le> max_temp cfg \<and> gt_int t (max_temp cfg - 3) \<longrightarrow>
              cooling (room_states a' r))) \<and>
         (heating (room_states a r) \<longrightarrow>
           (lt_int t (min_temp cfg + 3) \<and> \<not> gt_int t (max_temp cfg) \<longrightarrow>
              heating (room_states a' r)) \<and>
           (\<not> heating (room_states a' r) \<longrightarrow>
              ge_int t (min_temp cfg + 3) \<or> gt_int t (max_temp cfg)) \<and>
           (min_temp cfg + 3 \<le> max_temp cfg \<and> lt_int t (min_temp cfg + 3) \<longrightarrow>
              heating (room_states a' r)))"
proof -
  note flags = cycle_room_flags[OF assms(1,2,6,3)]
  have c: "cooling (room_states a' r)"
    if "cooling (room_states a r)" "\<not> le_int t (max_temp cfg - 3)" "\<not> lt_int t (min_temp cfg)"
    using flags stays_cooling[OF assms(4,5) that] that(1) by auto
  have h: "heating (room_states a' r)"
    if "heating (room_states a r)" "\<not> ge_int t (min_temp cfg + 3)" "\<not> gt_int t (max_temp cfg)"
    using flags stays_heating[OF assms(4,5) that] that(1) by auto
  have cb: "\<not> lt_int t (min_temp cfg)"
    if "min_temp cfg + 3 \<le> max_temp cfg" "gt_int t (max_temp cfg - 3)"
    using gt_mono[OF that(2), of "min_temp cfg"] that(1) by simp
  have hb: "\<not> gt_int t (max_temp cfg)"
    if "min_temp cfg + 3 \<le> max_temp cfg" "lt_int t (min_temp cfg + 3)"
    using lt_mono[OF that(2), of "max_temp cfg"] that(1) by simp
  show ?thesis
    using c h cb hb gt_not_le[of t "max_temp cfg - 3"] lt_not_ge[of t "min_temp cfg + 3"]
    by blast
qed

text \<open>
  Claim C3 as amended at work (scenario A, second reading): room 1 is cooling, reads 24.0,
  which is above 22, and stays cooling.
\<close>

theorem hysteresis_band_witness:
  "control_climate grfin_set_relay 20 scenario_a_24 grfin_gpio_simulated =
     Inr (scenario_a_24\<lparr>last_control_update := 20\<rparr>, grfin_gpio_simulated,
          [(''room1'', []), (''room2'', []), (''room3'', []), (''room4'', []), (''room5'', [])],
          [(''heater_vent'', False, True), (''supply'', False, True)]) \<and>
   ''room1'' \<in> set rooms \<and>
   settings scenario_a_24 ''room1'' = Some default_room \<and>
   \<not> manual_heat default_room \<and> \<not> manual_cool default_room \<and>
   temperatures scenario_a_24 ''room1'' = Some (Finite 24) \<and>
   cooling (room_states scenario_a_24 ''room1'') \<and>
   min_temp default_room + 3 \<le> max_temp default_room \<and>
   gt_int (Finite 24) (max_temp default_room - 3) \<and>
   cooling (room_states (scenario_a_24\<lparr>last_control_update := 20\<rparr>) ''room1'')"
proof -
  have cfg: "settings scenario_a_24 ''room1'' = Some default_room"
    by (simp add: scenario_a_24_def scenario_a_cooling_def scenario_a_def init_app_def
          DEFAULT_SETTINGS_def)
  have mh: "\<not> manual_heat default_room" and mc: "\<not> manual_cool default_room"
    by (simp_all add: default_room_def)
  have temp: "temperatures scenario_a_24 ''room1'' = Some (Finite 24)"
    by (simp add: scenario_a_24_def)
  have before: "cooling (room_states scenario_a_24 ''room1'')"
    by (simp add: scenario_a_24_def scenario_a_cooling_def)
  have band: "min_temp default_room + 3 \<le> max_temp default_room"
    and above: "gt_int (Finite 24) (max_temp default_room - 3)"
    by (simp_all add: default_room_def)
  from hysteresis_band[OF scenario_a_24_cycle room_names(1) cfg mh mc temp]
       scenario_a_24_cycle room_names(1) cfg mh mc temp before band above
  show ?thesis by simp
qed

text \<open>
  Claim C3 as stated fails for a band narrower than three degrees: room 1 with the band 24
  to 25 enters cooling at 26.0; at the next reading, 23.0, which is above
  \<open>max_temp - 3 = 22\<close>, the cycle fires the heat-on rule and the room is no longer cooling.
\<close>

theorem hysteresis_narrow_band_counterexample:
  "settings narrow_band ''room1'' =
     Some \<lparr>min_temp = 24, max_temp = 25, manual_heat = False, manual_cool = False\<rparr> \<and>
   temperatures narrow_band ''room1'' = Some (Finite 26) \<and>
   gt_int (Finite 26) 25 \<and>
   control_climate grfin_set_relay 10 narrow_band grfin_gpio_simulated =
     Inr (narrow_band_cooling\<lparr>temperatures := temperatures narrow_band\<rparr>, grfin_gpio_simulated,
          [(''room1'', [(''room1'', True, True), (''ac'', True, True)]),
           (''room2'', []), (''room3'', []), (''room4'', []), (''room5'', [])],
          [(''heater_vent'', False, True), (''supply'', False, True)]) \<and>
   cooling (room_states narrow_band_cooling ''room1'') \<and>
   settings narrow_band_cooling ''room1'' =
     Some \<lparr>min_temp = 24, max_temp = 25, manual_heat = False, manual_cool = False\<rparr> \<and>
   temperatures narrow_band_cooling ''room1'' = Some (Finite 23) \<and>
   gt_int (Finite 23) (25 - 3) \<and>
   control_climate grfin_set_relay 20 narrow_band_cooling grfin_gpio_simulated =
     Inr (narrow_band_heating, grfin_gpio_simulated,
          [(''room1'', [(''room1'', True, True), (''heater_vent'', True, True),
                        (''supply'', True, True)]),
           (''room2'', []), (''room3'', []), (''room4'', []), (''room5'', [])],
          [(''ac'', False, True)]) \<and>
   \<not> cooling (room_states narrow_band_heating ''room1'')"
  using narrow_band_cycle1 narrow_band_cycle2
  by (simp add: narrow_band_def narrow_band_cooling_def narrow_band_heating_def init_app_def
        default_room_def)

lemma rule_commands_targets:
  "set (rule_commands r rl st) \<subseteq>
     {(r, True), (r, False), (''ac'', True), (''heater_vent'', True), (''supply'', True)}"
  by (cases rl) auto

lemma control_room_targets:
  assumes "control_room sr r a h = Inr (a', h', lg)"
  shows "set (map cmd_target lg) \<subseteq>
     {(r, True), (r, False), (''ac'', True), (''heater_vent'', True), (''supply'', True)}"
proof (cases "temperatures a r")
  case None
  with assms show ?thesis by (simp add: control_room_def)
next
  case (Some t)
  show ?thesis
  proof (cases "settings a r")
    case None
    with Some assms show ?thesis by (simp add: control_room_def)
  next
    case (Some cfg)
    from control_room_outcome[OF assms \<open>temperatures a r = Some t\<close> Some]
    have "set (map cmd_target lg) \<subseteq>
            set (rule_commands r (fired_rule cfg t (room_states a r)) (room_states a r))"
      using set_take_subset by (metis empty_set empty_subsetI list.simps(8) subset_refl)
    with rule_commands_targets show ?thesis by blast
  qed
qed

lemma control_rooms_targets:
  "control_rooms sr rs a h = Inr (a', h', lgs) \<Longrightarrow> (q, lg) \<in> set lgs \<Longrightarrow>
     q \<in> set rs \<and> set (map cmd_target lg) \<subseteq>
       {(q, True), (q, False), (''ac'', True), (''heater_vent'', True), (''supply'', True)}"
proof (induction rs arbitrary: a h a' h' lgs)
  case Nil
  then show ?case by simp
next
  case (Cons x rs)
  from Cons.prems(1) obtain a1 h1 lg1 lgs1 where
    step: "control_room sr x a h = Inr (a1, h1, lg1)" and
    rest: "control_rooms sr rs a1 h1 = Inr (a', h', lgs1)" and
    lgs: "lgs = (x, lg1) # lgs1"
    by (auto split: sum.splits prod.splits)
  show ?case
  proof (cases "(q, lg) = (x, lg1)")
    case True
    with control_room_targets[OF step] show ?thesis by simp
  next
    case False
    with Cons.prems(2) lgs have "(q, lg) \<in> set lgs1" by auto
    from Cons.IH[OF rest this] show ?thesis by simp
  qed
qed

lemma room_logs_no_shared_off:
  assumes "control_rooms sr rooms a h = Inr (a', h', lgs)"
  shows "(''ac'', False) \<notin> set (map cmd_target (concat (map snd lgs))) \<and>
         (''heater_vent'', False) \<notin> set (map cmd_target (concat (map snd lgs))) \<and>
         (''supply'', False) \<notin> set (map cmd_target (concat (map snd lgs)))"
proof -
  have "t \<in> set (map cmd_target (concat (map snd lgs))) \<Longrightarrow>
          t \<noteq> (''ac'', False) \<and> t \<noteq> (''heater_vent'', False) \<and> t \<noteq> (''supply'', False)" for t
  proof -
    assume "t \<in> set (map cmd_target (concat (map snd lgs)))"
    then obtain q lg where in_lgs: "(q, lg) \<in> set lgs" and t: "t \<in> set (map cmd_target lg)"
      by auto
    from control_rooms_targets[OF assms in_lgs] t rooms_not_shared[of q]
    show ?thesis by auto
  qed
  then show ?thesis by blast
qed

lemma ac_off_targets:
  "set (map cmd_target (snd (ac_off sr a h))) =
     (if \<forall>r\<in>set rooms. \<not> cooling (room_states a r) then {(''ac'', False)} else {})"
  by (auto simp: ac_off_def cmd_target_def list_all_iff split: prod.splits)

lemma heat_off_targets:
  "set (map cmd_target (snd (heat_off sr a h))) =
     (if \<forall>r\<in>set rooms. \<not> heating (room_states a r)
      then {(''heater_vent'', False), (''supply'', False)} else {})"
  by (auto simp: heat_off_def cmd_target_def list_all_iff split: prod.splits)

text \<open>
  The sink is called on the logged commands and on nothing else: running it on the targets
  of a log, from the hardware before, gives the hardware after and the log itself.
\<close>

lemma sink_run_append:
  "sink_run sr cs h = (h1, lg1) \<Longrightarrow> sink_run sr ds h1 = (h2, lg2) \<Longrightarrow>
     sink_run sr (cs @ ds) h = (h2, lg1 @ lg2)"
  by (induction cs arbitrary: h lg1) (auto split: prod.splits)

lemma relay_chain_run:
  "relay_chain sr cs h = (ok, h', lg) \<Longrightarrow> sink_run sr (map cmd_target lg) h = (h', lg)"
  by (induction cs arbitrary: h ok h' lg)
     (auto simp: cmd_target_def split: prod.splits bool.splits)

lemma attempt_run:
  "attempt sr cs st' room a h = (a', h', lg) \<Longrightarrow> sink_run sr (map cmd_target lg) h = (h', lg)"
  by (auto simp: attempt_def split: prod.splits dest: relay_chain_run)

lemma control_room_run:
  assumes "control_room sr r a h = Inr (a', h', lg)"
  shows "sink_run sr (map cmd_target lg) h = (h', lg)"
  using assms unfolding control_room_by_rule
  by (auto simp: Let_def split: option.splits if_splits dest: attempt_run)

lemma control_rooms_run:
  "control_rooms sr rs a h = Inr (a', h', lgs) \<Longrightarrow>
     sink_run sr (map cmd_target (concat (map snd lgs))) h = (h', concat (map snd lgs))"
proof (induction rs arbitrary: a h a' h' lgs)
  case Nil
  then show ?case by simp
next
  case (Cons x rs)
  from Cons.prems obtain a1 h1 lg1 lgs1 where
    step: "control_room sr x a h = Inr (a1, h1, lg1)" and
    rest: "control_rooms sr rs a1 h1 = Inr (a', h', lgs1)" and
    lgs: "lgs = (x, lg1) # lgs1"
    by (auto split: sum.splits prod.splits)
  from sink_run_append[OF control_room_run[OF step] Cons.IH[OF rest]] lgs
  show ?case by simp
qed

lemma ac_off_run:
  "ac_off sr a h = (h', c) \<Longrightarrow> sink_run sr (map cmd_target c) h = (h', c)"
  by (auto simp: ac_off_def cmd_target_def split: if_splits prod.splits)

lemma heat_off_run:
  "heat_off sr a h = (h', c) \<Longrightarrow> sink_run sr (map cmd_target c) h = (h', c)"
  by (auto simp: heat_off_def cmd_target_def split: if_splits prod.splits)

lemma control_climate_run:
  assumes "control_climate sr current_time a h = Inr (a', h', lgs, sh)"
  shows "sink_run sr (cycle_commands lgs sh) h = (h', concat (map snd lgs) @ sh)"
proof (cases "current_time - last_control_update a \<ge> 10")
  case False
  with assms show ?thesis by (simp add: control_climate_def cycle_commands_def)
next
  case True
  with assms obtain a1 h1 h2 c1 c2 where
    rs: "control_rooms sr rooms a h = Inr (a1, h1, lgs)" and
    ac: "ac_off sr a1 h1 = (h2, c1)" and
    ht: "heat_off sr a1 h2 = (h', c2)" and
    sh: "sh = c1 @ c2"
    by (auto simp: control_climate_def split: sum.splits prod.splits)
  from sink_run_append[OF control_rooms_run[OF rs]
         sink_run_append[OF ac_off_run[OF ac] heat_off_run[OF ht]]] sh
  show ?thesis by (simp add: cycle_commands_def)
qed

text \<open>
  Claim C4. In every control cycle that runs to its end, the AC is commanded off if and
  only if no room of the room list is cooling after the per-room evaluation, and the heater
  vent and the supply are commanded off if and only if no room is heating; whether a room
  changed state in the cycle plays no part. The commands of the cycle are the calls the
  relay sink receives: the hardware after the cycle and the flags in the log are those of
  calling \<^verbatim>\<open>set_relay\<close> on these commands, in this order, from the hardware before.
\<close>

theorem shared_actuators_consolidated:
  assumes "control_climate sr current_time a h = Inr (a', h', lgs, sh)"
      and "current_time - last_control_update a \<ge> 10"
  shows "((''ac'', False) \<in> set (cycle_commands lgs sh) \<longleftrightarrow>
            (\<forall>r\<in>set rooms. \<not> cooling (room_states a' r))) \<and>
         ((''heater_vent'', False) \<in> set (cycle_commands lgs sh) \<longleftrightarrow>
            (\<forall>r\<in>set rooms. \<not> heating (room_states a' r))) \<and>
         ((''supply'', False) \<in> set (cycle_commands lgs sh) \<longleftrightarrow>
            (\<forall>r\<in>set rooms. \<not> heating (room_states a' r))) \<and>
         sink_run sr (cycle_commands lgs sh) h = (h', concat (map snd lgs) @ sh)"
proof -
  from control_climate_open[OF assms] obtain a1 h1 where
    rs: "control_rooms sr rooms a h = Inr (a1, h1, lgs)" and
    a': "a' = a1\<lparr>last_control_update := current_time\<rparr>" and
    sh: "sh = snd (ac_off sr a1 h1) @ snd (heat_off sr a1 (fst (ac_off sr a1 h1)))"
    by blast
  have st: "room_states a' = room_states a1" using a' by simp
  have split: "set (cycle_commands lgs sh) =
      set (map cmd_target (concat (map snd lgs))) \<union>
      set (map cmd_target (snd (ac_off sr a1 h1))) \<union>
      set (map cmd_target (snd (heat_off sr a1 (fst (ac_off sr a1 h1)))))"
    by (simp add: cycle_commands_def sh Un_assoc)
  have "((''ac'', False) \<in> set (cycle_commands lgs sh) \<longleftrightarrow>
            (\<forall>r\<in>set rooms. \<not> cooling (room_states a' r))) \<and>
         ((''heater_vent'', False) \<in> set (cycle_commands lgs sh) \<longleftrightarrow>
            (\<forall>r\<in>set rooms. \<not> heating (room_states a' r))) \<and>
         ((''supply'', False) \<in> set (cycle_commands lgs sh) \<longleftrightarrow>
            (\<forall>r\<in>set rooms. \<not> heating (room_states a' r)))"
    using room_logs_no_shared_off[OF rs]
    unfolding split ac_off_targets heat_off_targets st
    by auto
  with control_climate_run[OF assms(1)] show ?thesis by simp
qed

text \<open>
  Claim C4 at work on the gpiozero devices. An idle cycle that finds the AC relay on: no
  room is cooling or heating, all three shared relays are commanded off, and the AC device
  is off afterwards. The first cycle of scenario A: room 1 is cooling at the end, so the
  AC is not commanded off and its device stays on, while the heater vent and the supply
  are commanded off.
\<close>

theorem shared_actuators_consolidated_witness:
  "control_climate grfin_set_relay 10 idle_app grfin_ac_on =
     Inr (idle_app\<lparr>last_control_update := 10\<rparr>, grfin_gpio_ready,
          [(''room1'', []), (''room2'', []), (''room3'', []), (''room4'', []), (''room5'', [])],
          [(''ac'', False, True), (''heater_vent'', False, True), (''supply'', False, True)]) \<and>
   10 - last_control_update idle_app \<ge> 10 \<and>
   list_all (\<lambda>r. \<not> cooling (room_states (idle_app\<lparr>last_control_update := 10\<rparr>) r)) rooms \<and>
   list_all (\<lambda>r. \<not> heating (room_states (idle_app\<lparr>last_control_update := 10\<rparr>) r)) rooms \<and>
   (''ac'', False) \<in> set (cycle_commands
          [(''room1'', []), (''room2'', []), (''room3'', []), (''room4'', []), (''room5'', [])]
          [(''ac'', False, True), (''heater_vent'', False, True), (''supply'', False, True)]) \<and>
   sink_run grfin_set_relay [(''ac'', False), (''heater_vent'', False), (''supply'', False)]
       grfin_ac_on =
     (grfin_gpio_ready,
      [(''ac'', False, True), (''heater_vent'', False, True), (''supply'', False, True)]) \<and>
   map_of (relay_devices grfin_ac_on) ''ac'' =
     Some \<lparr>dev_pin = 17, dev_closed = False, dev_on = True\<rparr> \<and>
   map_of (relay_devices grfin_gpio_ready) ''ac'' =
     Some \<lparr>dev_pin = 17, dev_closed = False, dev_on = False\<rparr> \<and>
   control_climate grfin_set_relay 10 scenario_a grfin_gpio_ready =
     Inr (scenario_a_cooling, grfin_room1_cooling,
          [(''room1'', [(''room1'', True, True), (''ac'', True, True)]),
           (''room2'', []), (''room3'', []), (''room4'', []), (''room5'', [])],
          [(''heater_vent'', False, True), (''supply'', False, True)]) \<and>
   10 - last_control_update scenario_a \<ge> 10 \<and>
   cooling (room_states scenario_a_cooling ''room1'') \<and>
   (''ac'', False) \<notin> set (cycle_commands
          [(''room1'', [(''room1'', True, True), (''ac'', True, True)]),
           (''room2'', []), (''room3'', []), (''room4'', []), (''room5'', [])]
          [(''heater_vent'', False, True), (''supply'', False, True)]) \<and>
   list_all (\<lambda>r. \<not> heating (room_states scenario_a_cooling r)) rooms \<and>
   (''heater_vent'', False) \<in> set (cycle_commands
          [(''room1'', [(''room1'', True, True), (''ac'', True, True)]),
           (''room2'', []), (''room3'', []), (''room4'', []), (''room5'', [])]
          [(''heater_vent'', False, True), (''supply'', False, True)]) \<and>
   (''supply'', False) \<in> set (cycle_commands
          [(''room1'', [(''room1'', True, True), (''ac'', True, True)]),
           (''room2'', []), (''room3'', []), (''room4'', []), (''room5'', [])]
          [(''heater_vent'', False, True), (''supply'', False, True)]) \<and>
   sink_run grfin_set_relay
       [(''room1'', True), (''ac'', True), (''heater_vent'', False), (''supply'', False)]
       grfin_gpio_ready =
     (grfin_room1_cooling,
      [(''room1'', True, True), (''ac'', True, True),
       (''heater_vent'', False, True), (''supply'', False, True)]) \<and>
   map_of (relay_devices grfin_room1_cooling) ''ac'' =
     Some \<lparr>dev_pin = 17, dev_closed = False, dev_on = True\<rparr>"
proof -
  have gate0: "10 - last_control_update idle_app \<ge> 10"
    by (simp add: idle_app_def init_app_def)
  have gate: "10 - last_control_update scenario_a \<ge> 10"
    by (simp add: scenario_a_def init_app_def)
  have c0: "\<forall>r\<in>set rooms. \<not> cooling (room_states (idle_app\<lparr>last_control_update := 10\<rparr>) r)"
    and h0: "\<forall>r\<in>set rooms. \<not> heating (room_states (idle_app\<lparr>last_control_update := 10\<rparr>) r)"
    by (simp_all add: idle_app_def init_app_def)
  have c: "cooling (room_states scenario_a_cooling ''room1'')"
    by (simp add: scenario_a_cooling_def)
  have h: "\<forall>r\<in>set rooms. \<not> heating (room_states scenario_a_cooling r)"
    by (simp add: scenario_a_cooling_def scenario_a_def init_app_def)
  have cmds0: "cycle_commands
          [(''room1'', []), (''room2'', []), (''room3'', []), (''room4'', []), (''room5'', [])]
          [(''ac'', False, True), (''heater_vent'', False, True), (''supply'', False, True)] =
        [(''ac'', False), (''heater_vent'', False), (''supply'', False)]"
    by (simp add: cycle_commands_def cmd_target_def)
  have cmds: "cycle_commands
          [(''room1'', [(''room1'', True, True), (''ac'', True, True)]),
           (''room2'', []), (''room3'', []), (''room4'', []), (''room5'', [])]
          [(''heater_vent'', False, True), (''supply'', False, True)] =
        [(''room1'', True), (''ac'', True), (''heater_vent'', False), (''supply'', False)]"
    by (simp add: cycle_commands_def cmd_target_def)
  have dev0: "map_of (relay_devices grfin_ac_on) ''ac'' =
       Some \<lparr>dev_pin = 17, dev_closed = False, dev_on = True\<rparr>"
    by (simp add: grfin_ac_on_def grfin_set_relay_def grfin_gpio_ready_def grfin_RELAY_PINS_def)
  have dev1: "map_of (relay_devices grfin_gpio_ready) ''ac'' =
       Some \<lparr>dev_pin = 17, dev_closed = False, dev_on = False\<rparr>"
    by (simp add: grfin_gpio_ready_def grfin_RELAY_PINS_def)
  have dev2: "map_of (relay_devices grfin_room1_cooling) ''ac'' =
       Some \<lparr>dev_pin = 17, dev_closed = False, dev_on = True\<rparr>"
    by (simp add: grfin_room1_cooling_def grfin_set_relay_def grfin_gpio_ready_def
          grfin_RELAY_PINS_def)
  note idle = shared_actuators_consolidated[OF idle_stuck_ac_cycle gate0, unfolded cmds0]
  note cool = shared_actuators_consolidated[OF scenario_a_cycle_ready gate, unfolded cmds]
  from idle c0 have off0: "(''ac'', False) \<in>
      set [(''ac'', False), (''heater_vent'', False), (''supply'', False)]" by blast
  from idle have run0:
    "sink_run grfin_set_relay [(''ac'', False), (''heater_vent'', False), (''supply'', False)]
         grfin_ac_on =
       (grfin_gpio_ready,
        [(''ac'', False, True), (''heater_vent'', False, True), (''supply'', False, True)])"
    by simp
  from cool c room_names(1) have on1: "(''ac'', False) \<notin>
      set [(''room1'', True), (''ac'', True), (''heater_vent'', False), (''supply'', False)]"
    by blast
  from cool h have off1:
    "(''heater_vent'', False) \<in>
       set [(''room1'', True), (''ac'', True), (''heater_vent'', False), (''supply'', False)]"
    "(''supply'', False) \<in>
       set [(''room1'', True), (''ac'', True), (''heater_vent'', False), (''supply'', False)]"
    by blast+
  from cool have run1:
    "sink_run grfin_set_relay
         [(''room1'', True), (''ac'', True), (''heater_vent'', False), (''supply'', False)]
         grfin_gpio_ready =
       (grfin_room1_cooling,
        [(''room1'', True, True), (''ac'', True, True),
         (''heater_vent'', False, True), (''supply'', False, True)])"
    by simp
  from c0 h0 h have lists:
    "list_all (\<lambda>r. \<not> cooling (room_states (idle_app\<lparr>last_control_update := 10\<rparr>) r)) rooms"
    "list_all (\<lambda>r. \<not> heating (room_states (idle_app\<lparr>last_control_update := 10\<rparr>) r)) rooms"
    "list_all (\<lambda>r. \<not> heating (room_states scenario_a_cooling r)) rooms"
    unfolding list_all_iff by blast+
  show ?thesis
    unfolding cmds0 cmds
    by (intro conjI idle_stuck_ac_cycle scenario_a_cycle_ready gate0 gate lists off0 run0
          on1 off1 run1 dev0 dev1 dev2 c)
qed

lemma cycle_settings_present:
  assumes "control_climate sr current_time a h = Inr (a', h', lgs, sh)"
      and "current_time - last_control_update a \<ge> 10" and "r \<in> set rooms"
      and "temperatures a r = Some t"
  shows "\<exists>cfg. settings a r = Some cfg"
proof -
  from cycle_locate[OF assms(1,2,3)] obtain a0 h0 a1 h1 lg where
    a0: "settings a0 = settings a" "temperatures a0 = temperatures a" and
    step: "control_room sr r a0 h0 = Inr (a1, h1, lg)"
    by blast
  with assms(4) show ?thesis by (cases "settings a r") (auto simp: control_room_def)
qed

lemma cycle_gate_from_log:
  assumes "control_climate sr current_time a h = Inr (a', h', lgs, sh)"
      and "map_of lgs r = Some lg"
  shows "current_time - last_control_update a \<ge> 10"
proof (rule ccontr)
  assume "\<not> current_time - last_control_update a \<ge> 10"
  from control_climate_closed[OF this, of sr h] assms show False by simp
qed

lemma relay_failure_first_cycle:
  assumes "control_climate sr current_time a h = Inr (a', h', lgs, sh)"
      and "r \<in> set rooms" and "map_of lgs r = Some lg"
  shows "(room_states a' r \<noteq> room_states a r \<longrightarrow>
            lg \<noteq> [] \<and> list_all cmd_ok lg \<and>
            (\<exists>t cfg. temperatures a r = Some t \<and> settings a r = Some cfg \<and>
               map cmd_target lg =
                 rule_commands r (fired_rule cfg t (room_states a r)) (room_states a r))) \<and>
         (\<not> list_all cmd_ok lg \<longrightarrow> room_states a' r = room_states a r)"
proof (cases "temperatures a r")
  case None
  note gate = cycle_gate_from_log[OF assms(1,3)]
  from cycle_room_skipped[OF assms(1) gate assms(2) None] assms(3) show ?thesis by simp
next
  case (Some t)
  note gate = cycle_gate_from_log[OF assms(1,3)]
  from cycle_settings_present[OF assms(1) gate assms(2) Some] obtain cfg where
    cfg: "settings a r = Some cfg" by blast
  from cycle_room_outcome[OF assms(1) gate assms(2) Some cfg refl refl] assms(3) Some cfg
  show ?thesis by auto
qed

lemma relay_failure_both_cycles:
  assumes "control_climate sr current_time a h = Inr (a', h', lgs, sh)"
      and "r \<in> set rooms" and "map_of lgs r = Some lg"
      and "control_climate sr next_time a' h2 = Inr (a'', h'', lgs', sh')"
      and "next_time - last_control_update a' \<ge> 10"
      and "map_of lgs' r = Some lg'"
  shows "\<not> list_all cmd_ok lg \<longrightarrow>
            lg' \<noteq> [] \<and>
            (\<exists>t cfg. temperatures a' r = Some t \<and> settings a' r = Some cfg \<and>
               fired_rule cfg t (room_states a' r) = fired_rule cfg t (room_states a r) \<and>
               map cmd_target lg =
                 take (length lg)
                   (rule_commands r (fired_rule cfg t (room_states a r)) (room_states a r)) \<and>
               map cmd_target lg' =
                 take (length lg')
                   (rule_commands r (fired_rule cfg t (room_states a r)) (room_states a r)))"
proof (cases "temperatures a r")
  case None
  note gate = cycle_gate_from_log[OF assms(1,3)]
  from cycle_room_skipped[OF assms(1) gate assms(2) None] assms(3) show ?thesis by simp
next
  case (Some t)
  note gate = cycle_gate_from_log[OF assms(1,3)]
  from cycle_settings_present[OF assms(1) gate assms(2) Some] obtain cfg where
    cfg: "settings a r = Some cfg" by blast
  define st where "st = room_states a r"
  define rl where "rl = fired_rule cfg t st"
  define cs where "cs = rule_commands r rl st"
  from cycle_room_outcome[OF assms(1) gate assms(2) Some cfg st_def rl_def] assms(3)
  have first: "(lg = [] \<and> cs = [] \<and> room_states a' r = st) \<or>
         (lg \<noteq> [] \<and> list_all cmd_ok lg \<and> map cmd_target lg = cs \<and>
            room_states a' r = rule_commit rl st) \<or>
         (lg \<noteq> [] \<and> \<not> list_all cmd_ok lg \<and> map cmd_target lg = take (length lg) cs \<and>
            room_states a' r = st)"
    by (simp add: cs_def)
  from cycle_frame[OF assms(1)] Some cfg
  have t': "temperatures a' r = Some t" and cfg': "settings a' r = Some cfg" by simp_all
  show ?thesis
  proof
    assume nok: "\<not> list_all cmd_ok lg"
    from first nok have same: "room_states a' r = st" and lg: "lg \<noteq> []"
      and pre: "map cmd_target lg = take (length lg) cs"
      by auto
    from lg pre have cs_ne: "cs \<noteq> []" by auto
    from cycle_room_outcome[OF assms(4,5,2) t' cfg' same[symmetric] rl_def] assms(6) cs_ne
    have "lg' \<noteq> [] \<and> (map cmd_target lg' = cs \<or> map cmd_target lg' = take (length lg') cs)"
      by (auto simp: cs_def)
    moreover have "map cmd_target lg' = take (length lg') cs" if "map cmd_target lg' = cs"
      using that by (metis length_map order_refl take_all)
    ultimately have again: "lg' \<noteq> []" "map cmd_target lg' = take (length lg') cs"
      by blast+
    have same_rule: "fired_rule cfg t (room_states a' r) = fired_rule cfg t (room_states a r)"
      using same by (simp add: st_def)
    from pre again(2)
    have "map cmd_target lg =
            take (length lg)
              (rule_commands r (fired_rule cfg t (room_states a r)) (room_states a r))"
      and "map cmd_target lg' =
            take (length lg')
              (rule_commands r (fired_rule cfg t (room_states a r)) (room_states a r))"
      unfolding cs_def rl_def st_def by blast+
    with again(1) same_rule t' cfg'
    show "lg' \<noteq> [] \<and>
            (\<exists>t cfg. temperatures a' r = Some t \<and> settings a' r = Some cfg \<and>
               fired_rule cfg t (room_states a' r) = fired_rule cfg t (room_states a r) \<and>
               map cmd_target lg =
                 take (length lg)
                   (rule_commands r (fired_rule cfg t (room_states a r)) (room_states a r)) \<and>
               map cmd_target lg' =
                 take (length lg')
                   (rule_commands r (fired_rule cfg t (room_states a r)) (room_states a r)))"
      by blast
  qed
qed

lemma control_room_returns:
  "temperatures a r \<noteq> None \<longrightarrow> settings a r \<noteq> None \<Longrightarrow>
     \<exists>a' h' lg. control_room sr r a h = Inr (a', h', lg)"
  by (cases "temperatures a r"; cases "settings a r")
     (auto simp: control_room_by_rule Let_def intro: prod_cases3)

lemma control_rooms_returns:
  "\<forall>r\<in>set rs. temperatures a r \<noteq> None \<longrightarrow> settings a r \<noteq> None \<Longrightarrow>
     \<exists>a' h' lgs. control_rooms sr rs a h = Inr (a', h', lgs)"
proof (induction rs arbitrary: a h)
  case Nil
  then show ?case by simp
next
  case (Cons r rs)
  from Cons.prems control_room_returns[of a r sr h] obtain a1 h1 lg where
    step: "control_room sr r a h = Inr (a1, h1, lg)" by auto
  from control_room_frame[OF step] Cons.prems
  have "\<forall>q\<in>set rs. temperatures a1 q \<noteq> None \<longrightarrow> settings a1 q \<noteq> None" by auto
  from Cons.IH[OF this, of h1] step show ?case by auto
qed

text \<open>A cycle returns when every room that has a reading has settings.\<close>

lemma control_climate_returns:
  assumes "\<forall>r\<in>set rooms. temperatures a r \<noteq> None \<longrightarrow> settings a r \<noteq> None"
  shows "\<exists>a' h' lgs sh. control_climate sr current_time a h = Inr (a', h', lgs, sh)"
proof -
  from control_rooms_returns[OF assms, of sr h] obtain a1 h1 lgs where
    "control_rooms sr rooms a h = Inr (a1, h1, lgs)" by blast
  then show ?thesis
    by (auto simp: control_climate_def split: prod.splits)
qed

lemma relay_failure_refires:
  assumes "control_climate sr current_time a h = Inr (a', h', lgs, sh)"
      and "r \<in> set rooms" and "map_of lgs r = Some lg" and "\<not> list_all cmd_ok lg"
      and "next_time - last_control_update a' \<ge> 10"
  shows "\<exists>a'' h'' lgs' sh' lg' t cfg.
           control_climate sr next_time a' h2 = Inr (a'', h'', lgs', sh') \<and>
           map_of lgs' r = Some lg' \<and> lg' \<noteq> [] \<and>
           temperatures a' r = Some t \<and> settings a' r = Some cfg \<and>
           fired_rule cfg t (room_states a' r) = fired_rule cfg t (room_states a r) \<and>
           map cmd_target lg =
             take (length lg)
               (rule_commands r (fired_rule cfg t (room_states a r)) (room_states a r)) \<and>
           map cmd_target lg' =
             take (length lg')
               (rule_commands r (fired_rule cfg t (room_states a r)) (room_states a r))"
proof -
  note gate = cycle_gate_from_log[OF assms(1,3)]
  have complete: "\<forall>q\<in>set rooms. temperatures a' q \<noteq> None \<longrightarrow> settings a' q \<noteq> None"
  proof (intro ballI impI)
    fix q assume q: "q \<in> set rooms" and "temperatures a' q \<noteq> None"
    with cycle_frame[OF assms(1)] obtain t where "temperatures a q = Some t" by auto
    from cycle_settings_present[OF assms(1) gate q this] cycle_frame[OF assms(1)]
    show "settings a' q \<noteq> None" by auto
  qed
  from control_climate_returns[OF complete, of sr next_time h2] obtain a'' h'' lgs' sh' where
    next_cycle: "control_climate sr next_time a' h2 = Inr (a'', h'', lgs', sh')" by blast
  from cycle_locate[OF next_cycle assms(5,2)] obtain lg' where
    lg': "map_of lgs' r = Some lg'" by blast
  from relay_failure_both_cycles[OF assms(1,2,3) next_cycle assms(5) lg'] assms(4) next_cycle lg'
  show ?thesis by blast
qed

text \<open>
  Claim C5. Over a control cycle the flags of a room change only if the whole command
  sequence of the fired rule was issued and every command returned success. If a command
  issued for the room failed, the flags are as before the cycle, and the next cycle,
  whatever the hardware then is, returns with the same rule fired for the room and its
  command sequence attempted again from the start.
\<close>

theorem relay_failure_keeps_flags:
  assumes "control_climate sr current_time a h = Inr (a', h', lgs, sh)"
      and "r \<in> set rooms" and "map_of lgs r = Some lg"
  shows "(room_states a' r \<noteq> room_states a r \<longrightarrow>
            lg \<noteq> [] \<and> list_all cmd_ok lg \<and>
            (\<exists>t cfg. temperatures a r = Some t \<and> settings a r = Some cfg \<and>
               map cmd_target lg =
                 rule_commands r (fired_rule cfg t (room_states a r)) (room_states a r))) \<and>
         (\<not> list_all cmd_ok lg \<longrightarrow>
            room_states a' r = room_states a r \<and>
            (\<forall>next_time h2. next_time - last_control_update a' \<ge> 10 \<longrightarrow>
               (\<exists>a'' h'' lgs' sh' lg' t cfg.
                  control_climate sr next_time a' h2 = Inr (a'', h'', lgs', sh') \<and>
                  map_of lgs' r = Some lg' \<and> lg' \<noteq> [] \<and>
                  temperatures a' r = Some t \<and> settings a' r = Some cfg \<and>
                  fired_rule cfg t (room_states a' r) = fired_rule cfg t (room_states a r) \<and>
                  map cmd_target lg =
                    take (length lg)
                      (rule_commands r (fired_rule cfg t (room_states a r)) (room_states a r)) \<and>
                  map cmd_target lg' =
                    take (length lg')
                      (rule_commands r (fired_rule cfg t (room_states a r))
                         (room_states a r)))))"
proof (intro conjI impI allI)
  assume ch: "room_states a' r \<noteq> room_states a r"
  from relay_failure_first_cycle[OF assms] ch
  show "lg \<noteq> []" "list_all cmd_ok lg"
    "\<exists>t cfg. temperatures a r = Some t \<and> settings a r = Some cfg \<and>
       map cmd_target lg =
         rule_commands r (fired_rule cfg t (room_states a r)) (room_states a r)"
    by simp_all
next
  assume nok: "\<not> list_all cmd_ok lg"
  from relay_failure_first_cycle[OF assms] nok
  show "room_states a' r = room_states a r" by blast
next
  fix next_time :: rat and h2 :: 'a
  assume nok: "\<not> list_all cmd_ok lg" and gate2: "next_time - last_control_update a' \<ge> 10"
  from relay_failure_refires[OF assms nok gate2, of h2]
  show "\<exists>a'' h'' lgs' sh' lg' t cfg.
                  control_climate sr next_time a' h2 = Inr (a'', h'', lgs', sh') \<and>
                  map_of lgs' r = Some lg' \<and> lg' \<noteq> [] \<and>
                  temperatures a' r = Some t \<and> settings a' r = Some cfg \<and>
                  fired_rule cfg t (room_states a' r) = fired_rule cfg t (room_states a r) \<and>
                  map cmd_target lg =
                    take (length lg)
                      (rule_commands r (fired_rule cfg t (room_states a r)) (room_states a r)) \<and>
                  map cmd_target lg' =
                    take (length lg')
                      (rule_commands r (fired_rule cfg t (room_states a r))
                         (room_states a r))" .
qed

text \<open>
  Claim C5 at work (scenario D): room 5 reads 26.0 and the AC device is closed. The room
  relay goes on, the AC command fails, the flags of room 5 stay as they were, and the next
  cycle issues the same two commands again.
\<close>

theorem relay_failure_keeps_flags_witness:
  "control_climate grfin_set_relay 10 scenario_d gpio_ac_fault =
     Inr (scenario_d\<lparr>last_control_update := 10\<rparr>, gpio_ac_fault_room5_on,
          [(''room1'', []), (''room2'', []), (''room3'', []), (''room4'', []),
           (''room5'', [(''room5'', True, True), (''ac'', True, False)])],
          [(''ac'', False, False), (''heater_vent'', False, True), (''supply'', False, True)]) \<and>
   ''room5'' \<in> set rooms \<and>
   \<not> list_all cmd_ok [(''room5'', True, True), (''ac'', True, False)] \<and>
   room_states (scenario_d\<lparr>last_control_update := 10\<rparr>) ''room5'' =
     room_states scenario_d ''room5'' \<and>
   20 - last_control_update (scenario_d\<lparr>last_control_update := 10\<rparr>) \<ge> 10 \<and>
   control_climate grfin_set_relay 20 (scenario_d\<lparr>last_control_update := 10\<rparr>)
       gpio_ac_fault_room5_on =
     Inr (scenario_d\<lparr>last_control_update := 20\<rparr>, gpio_ac_fault_room5_on,
          [(''room1'', []), (''room2'', []), (''room3'', []), (''room4'', []),
           (''room5'', [(''room5'', True, True), (''ac'', True, False)])],
          [(''ac'', False, False), (''heater_vent'', False, True), (''supply'', False, True)]) \<and>
   fired_rule default_room (Finite 26) (room_states scenario_d ''room5'') = CoolOn \<and>
   map cmd_target [(''room5'', True, True), (''ac'', True, False)] =
     take 2 (rule_commands ''room5'' CoolOn (room_states scenario_d ''room5''))"
proof -
  have gate: "20 - last_control_update (scenario_d\<lparr>last_control_update := 10\<rparr>) \<ge> 10"
    by simp
  have lg: "map_of [(''room1'', []), (''room2'', []), (''room3'', []), (''room4'', []),
           (''room5'', [(''room5'', True, True), (''ac'', True, False)])] ''room5'' =
         Some [(''room5'', True, True), (''ac'', True, False)]"
    by simp
  have nok: "\<not> list_all cmd_ok [(''room5'', True, True), (''ac'', True, False)]"
    by (simp add: cmd_ok_def)
  have rl: "fired_rule default_room (Finite 26) (room_states scenario_d ''room5'') = CoolOn"
    by (simp add: fired_rule_def default_room_def scenario_d_def init_app_def)
  have tg: "map cmd_target [(''room5'', True, True), (''ac'', True, False)] =
     take 2 (rule_commands ''room5'' CoolOn (room_states scenario_d ''room5''))"
    by (simp add: cmd_target_def)
  from relay_failure_keeps_flags[OF scenario_d_cycle1 room_names(5) lg]
       scenario_d_cycle1 scenario_d_cycle2 room_names(5) gate nok rl tg
  show ?thesis by simp
qed

section \<open>Properties of the temperature source\<close>

lemma await_ready_stops:
  "settled (Some lines) \<Longrightarrow>
     await_ready dev k lines = Some ((if lines = [] then None else Some lines), k)"
  by (subst await_ready.simps) (auto simp: settled_def split: list.splits)

text \<open>What the loop hands back when the read that ends the waiting is \<open>r\<close>.\<close>

lemma await_ready_first_settled:
  "\<not> settled (Some lines) \<Longrightarrow> \<forall>j<n. \<not> settled (dev (k + j)) \<Longrightarrow> settled (dev (k + n)) \<Longrightarrow>
     await_ready dev k lines =
       Some ((case dev (k + n) of Some (l # ls) \<Rightarrow> Some (l # ls) | _ \<Rightarrow> None), Suc (k + n))"
proof (induction n arbitrary: k lines)
  case 0
  from 0(1) obtain l0 ls where lines: "lines = l0 # ls" and nr: "last3 (strip l0) \<noteq> ''YES''"
    by (auto simp: settled_def split: list.splits)
  show ?case
  proof (cases "dev k")
    case None
    with lines nr show ?thesis
      by (subst await_ready.simps) (simp add: read_temp_raw_def)
  next
    case (Some new)
    with 0(3) have st: "settled (Some new)" by simp
    from await_ready_stops[OF st, of dev "Suc k"] lines nr Some show ?thesis
      by (subst await_ready.simps) (auto simp: read_temp_raw_def split: list.splits)
  qed
next
  case (Suc n)
  from Suc.prems(1) obtain l0 ls where lines: "lines = l0 # ls"
    and nr: "last3 (strip l0) \<noteq> ''YES''"
    by (auto simp: settled_def split: list.splits)
  from Suc.prems(2) have "\<not> settled (dev (k + 0))" by blast
  then obtain l ls' where new: "dev k = Some (l # ls')" and ns: "\<not> settled (Some (l # ls'))"
    by (cases "dev k") (auto simp: settled_def split: list.splits)
  have later: "\<forall>j<n. \<not> settled (dev (Suc k + j))"
  proof (intro allI impI)
    fix j assume "j < n"
    then have "Suc j < Suc n" by simp
    with Suc.prems(2) have "\<not> settled (dev (k + Suc j))" by blast
    then show "\<not> settled (dev (Suc k + j))" by simp
  qed
  from Suc.prems(3) have last: "settled (dev (Suc k + n))" by simp
  from Suc.IH[OF ns later last] lines nr new show ?case
    by (subst await_ready.simps) (simp add: read_temp_raw_def)
qed

lemma await_ready_diverges:
  assumes "\<forall>k. \<not> settled (dev k)" and "\<not> settled (Some lines)"
  shows "await_ready dev k lines = None"
proof (rule ccontr)
  assume "await_ready dev k lines \<noteq> None"
  then obtain y where ret: "await_ready dev k lines = Some y" by auto
  have "dev = dev \<longrightarrow> settled (Some lines)"
  proof (rule await_ready.raw_induct[where P = "\<lambda>d k lines y. d = dev \<longrightarrow> settled (Some lines)", OF _ ret])
    fix f :: "sensor \<Rightarrow> nat \<Rightarrow> string list \<Rightarrow> (string list option \<times> nat) option"
      and d :: sensor and k :: nat and lines :: "string list"
      and y :: "string list option \<times> nat"
    assume IH: "\<And>d k lines y. f d k lines = Some y \<Longrightarrow> d = dev \<longrightarrow> settled (Some lines)"
    assume body: "(case lines of
        [] \<Rightarrow> Some (None, k)
      | l0 # _ \<Rightarrow>
          if last3 (strip l0) \<noteq> ''YES'' then
            (case read_temp_raw d k of
               None \<Rightarrow> Some (None, Suc k)
             | Some [] \<Rightarrow> Some (None, Suc k)
             | Some (l # ls) \<Rightarrow> f d (Suc k) (l # ls))
          else Some (Some lines, k)) = Some y"
    show "d = dev \<longrightarrow> settled (Some lines)"
    proof
      assume d: "d = dev"
      show "settled (Some lines)"
      proof (rule ccontr)
        assume "\<not> settled (Some lines)"
        then obtain l0 ls where lines: "lines = l0 # ls" and nr: "last3 (strip l0) \<noteq> ''YES''"
          by (auto simp: settled_def split: list.splits)
        from assms(1) have "\<not> settled (dev k)" by simp
        then obtain l ls' where new: "dev k = Some (l # ls')" and nr': "\<not> settled (Some (l # ls'))"
          by (cases "dev k") (auto simp: settled_def split: list.splits)
        from body lines nr new d have "f dev (Suc k) (l # ls') = Some y"
          by (simp add: read_temp_raw_def)
        from IH[OF this] nr' show False by simp
      qed
    qed
  qed
  with assms(2) show False by simp
qed

text \<open>\<^verbatim>\<open>find\<close> gives the lowest index at which the substring starts.\<close>

lemma py_find_Some:
  "py_find s sub = Some i \<Longrightarrow>
     take (length sub) (drop i s) = sub \<and> (\<forall>j<i. take (length sub) (drop j s) \<noteq> sub)"
proof (induction s arbitrary: i)
  case Nil
  then show ?case by (simp split: if_splits)
next
  case (Cons c s)
  show ?case
  proof (cases "take (length sub) (c # s) = sub")
    case True
    with Cons.prems show ?thesis by simp
  next
    case False
    with Cons.prems obtain i' where i': "py_find s sub = Some i'" and i: "i = Suc i'"
      by auto
    from Cons.IH[OF i'] have here: "take (length sub) (drop i' s) = sub"
      and before: "\<forall>j<i'. take (length sub) (drop j s) \<noteq> sub" by simp_all
    have "take (length sub) (drop j (c # s)) \<noteq> sub" if "j < i" for j
    proof (cases j)
      case 0
      with False show ?thesis by simp
    next
      case (Suc j')
      with that i have "j' < i'" by simp
      with before Suc show ?thesis by simp
    qed
    with here i show ?thesis by simp
  qed
qed

lemma py_find_None:
  "py_find s sub = None \<Longrightarrow> sub \<noteq> [] \<Longrightarrow> take (length sub) (drop j s) \<noteq> sub"
proof (induction s arbitrary: j)
  case Nil
  then show ?case by auto
next
  case (Cons c s)
  from Cons.prems have here: "take (length sub) (c # s) \<noteq> sub" and rest: "py_find s sub = None"
    by (auto split: if_splits)
  show ?case
  proof (cases j)
    case 0
    with here show ?thesis by simp
  next
    case (Suc j')
    with Cons.IH[OF rest Cons.prems(2), of j'] show ?thesis by simp
  qed
qed

lemma py_find_first:
  assumes "take (length sub) (drop i s) = sub" and "\<forall>j<i. take (length sub) (drop j s) \<noteq> sub"
      and "sub \<noteq> []"
  shows "py_find s sub = Some i"
proof (cases "py_find s sub")
  case None
  from py_find_None[OF None assms(3), of i] assms(1) show ?thesis by simp
next
  case (Some i')
  from py_find_Some[OF Some] have here: "take (length sub) (drop i' s) = sub"
    and before: "\<forall>j<i'. take (length sub) (drop j s) \<noteq> sub" by simp_all
  have "i' = i"
  proof (rule ccontr)
    assume "i' \<noteq> i"
    then consider "i' < i" | "i < i'" by linarith
    then show False
    proof cases
      case 1
      with assms(2) here show False by blast
    next
      case 2
      with before assms(1) show False by blast
    qed
  qed
  with Some show ?thesis by simp
qed

lemma parse_temp_found:
  assumes "lines = l0 # l1 # rest" and "take 2 (drop i l1) = ''t=''"
      and "\<forall>j<i. take 2 (drop j l1) \<noteq> ''t=''"
  shows "parse_temp celsius lines = celsius (drop (i + 2) l1)"
proof -
  have "py_find l1 ''t='' = Some i"
    using py_find_first[of "''t=''" i l1] assms(2,3) by (simp add: numeral_2_eq_2)
  with assms(1) show ?thesis by (simp add: parse_temp_def)
qed

lemma parse_temp_none:
  assumes "length lines < 2 \<or> (\<forall>i. take 2 (drop i (lines ! 1)) \<noteq> ''t='')"
  shows "parse_temp celsius lines = None"
proof (cases lines)
  case Nil
  then show ?thesis by (simp add: parse_temp_def)
next
  case (Cons l0 tl)
  show ?thesis
  proof (cases tl)
    case Nil
    with Cons show ?thesis by (simp add: parse_temp_def)
  next
    case (Cons l1 rest)
    with \<open>lines = l0 # tl\<close> assms have no: "\<forall>i. take 2 (drop i l1) \<noteq> ''t=''" by simp
    have "py_find l1 ''t='' = None"
    proof (cases "py_find l1 ''t=''")
      case (Some i)
      from py_find_Some[OF Some] no show ?thesis by (simp add: numeral_2_eq_2)
    qed simp
    with Cons \<open>lines = l0 # tl\<close> show ?thesis by (simp add: parse_temp_def)
  qed
qed

lemma read_temp_first_settled:
  assumes "settled (dev k)" and "\<forall>j<k. \<not> settled (dev j)"
  shows "read_temp celsius dev =
           Some ((case dev k of Some (l # ls) \<Rightarrow> parse_temp celsius (l # ls) | _ \<Rightarrow> None), Suc k)"
proof (cases k)
  case 0
  show ?thesis
  proof (cases "dev 0")
    case None
    with 0 show ?thesis by (simp add: read_temp_def read_temp_raw_def)
  next
    case (Some lines)
    with assms(1) 0 have st: "settled (Some lines)" by simp
    from await_ready_stops[OF st, of dev 1] Some 0 show ?thesis
      by (cases lines) (simp_all add: read_temp_def read_temp_raw_def)
  qed
next
  case (Suc n)
  with assms(2) have "\<not> settled (dev 0)" by simp
  then obtain l ls where first: "dev 0 = Some (l # ls)" and ns: "\<not> settled (Some (l # ls))"
    by (cases "dev 0") (auto simp: settled_def split: list.splits)
  have before: "\<forall>j<n. \<not> settled (dev (1 + j))"
  proof (intro allI impI)
    fix j assume "j < n"
    with Suc have "Suc j < k" by simp
    with assms(2) show "\<not> settled (dev (1 + j))" by simp
  qed
  from assms(1) Suc have last: "settled (dev (1 + n))" by simp
  from await_ready_first_settled[OF ns before last] first Suc show ?thesis
    by (auto simp: read_temp_def read_temp_raw_def split: option.splits list.splits)
qed

lemma first_settled_exists:
  fixes dev :: sensor
  assumes "settled (dev k)"
  shows "\<exists>m\<le>k. settled (dev m) \<and> (\<forall>j<m. \<not> settled (dev j))"
proof -
  define m where "m = (LEAST i. settled (dev i))"
  from assms have "settled (dev m)"
    unfolding m_def by (rule LeastI[of "\<lambda>i. settled (dev i)" k])
  moreover from assms have "m \<le> k"
    unfolding m_def by (rule Least_le[of "\<lambda>i. settled (dev i)" k])
  moreover have "\<forall>j<m. \<not> settled (dev j)"
    unfolding m_def using not_less_Least by blast
  ultimately show ?thesis by blast
qed

text \<open>
  Claim C9, as amended. Let the \<open>k\<close>-th read of the device file be the first that gives
  no lines or a first line ending in \<^verbatim>\<open>YES\<close>. Then \<^verbatim>\<open>read_temp\<close> returns after
  \<open>k + 1\<close> reads: \<^verbatim>\<open>None\<close> when that read gave no lines, and otherwise what the lines of
  that read parse to. Whenever some read is of that kind, \<^verbatim>\<open>read_temp\<close> returns after at
  most one read more than its index. Nothing bounds the number of retries: on a file
  none of whose reads is of that kind, \<^verbatim>\<open>read_temp\<close> does not return. The lines parse
  to \<^verbatim>\<open>float(s) / 1000.0\<close> for the rest \<open>s\<close> of the second line after the first \<^verbatim>\<open>t=\<close>
  in it, and to \<^verbatim>\<open>None\<close> when there is no second line or no \<^verbatim>\<open>t=\<close> in it.
\<close>

theorem read_temp_returns_iff_settled:
  "(settled (dev k) \<and> (\<forall>j<k. \<not> settled (dev j)) \<longrightarrow>
      ((dev k = None \<or> dev k = Some []) \<longrightarrow> read_temp celsius dev = Some (None, Suc k)) \<and>
      (\<forall>lines. dev k = Some lines \<and> lines \<noteq> [] \<longrightarrow>
         read_temp celsius dev = Some (parse_temp celsius lines, Suc k))) \<and>
   (settled (dev k) \<longrightarrow> (\<exists>r n. read_temp celsius dev = Some (r, n) \<and> n \<le> Suc k)) \<and>
   ((\<forall>j. \<not> settled (dev j)) \<longrightarrow> read_temp celsius dev = None) \<and>
   (\<forall>l0 l1 rest i. ready = l0 # l1 # rest \<and> take 2 (drop i l1) = ''t='' \<and>
        (\<forall>j<i. take 2 (drop j l1) \<noteq> ''t='') \<longrightarrow>
      parse_temp celsius ready = celsius (drop (i + 2) l1)) \<and>
   (length ready < 2 \<or> (\<forall>i. take 2 (drop i (ready ! 1)) \<noteq> ''t='') \<longrightarrow>
      parse_temp celsius ready = None)"
proof (intro conjI impI allI)
  assume "settled (dev k) \<and> (\<forall>j<k. \<not> settled (dev j))" and "dev k = None \<or> dev k = Some []"
  with read_temp_first_settled[of dev k celsius]
  show "read_temp celsius dev = Some (None, Suc k)" by auto
next
  fix lines
  assume "settled (dev k) \<and> (\<forall>j<k. \<not> settled (dev j))" and "dev k = Some lines \<and> lines \<noteq> []"
  with read_temp_first_settled[of dev k celsius]
  show "read_temp celsius dev = Some (parse_temp celsius lines, Suc k)"
    by (cases lines) auto
next
  assume "settled (dev k)"
  from first_settled_exists[of dev k] this obtain m where
    "m \<le> k" "settled (dev m)" "\<forall>j<m. \<not> settled (dev j)" by blast
  with read_temp_first_settled[of dev m celsius]
  show "\<exists>r n. read_temp celsius dev = Some (r, n) \<and> n \<le> Suc k" by auto
next
  assume never: "\<forall>j. \<not> settled (dev j)"
  then have "\<not> settled (dev 0)" by simp
  then obtain l ls where first: "dev 0 = Some (l # ls)" and ns: "\<not> settled (Some (l # ls))"
    by (cases "dev 0") (auto simp: settled_def split: list.splits)
  from await_ready_diverges[OF never ns] first
  show "read_temp celsius dev = None"
    by (simp add: read_temp_def read_temp_raw_def)
next
  fix l0 l1 rest i
  assume "ready = l0 # l1 # rest \<and> take 2 (drop i l1) = ''t='' \<and>
        (\<forall>j<i. take 2 (drop j l1) \<noteq> ''t='')"
  then show "parse_temp celsius ready = celsius (drop (i + 2) l1)"
    using parse_temp_found by blast
next
  assume "length ready < 2 \<or> (\<forall>i. take 2 (drop i (ready ! 1)) \<noteq> ''t='')"
  then show "parse_temp celsius ready = None" by (rule parse_temp_none)
qed

lemma never_ready_unsettled: "\<not> settled (never_ready k)"
  by (simp add: never_ready_def settled_def last3_def strip_def py_isspace_def)

lemma ready_on_second_settled:
  "\<not> settled (ready_on_second 0)" "settled (ready_on_second 1)"
  by (simp_all add: ready_on_second_def settled_def last3_def strip_def py_isspace_def)

lemma gone_on_third_settled:
  "\<not> settled (gone_on_third 0)" "\<not> settled (gone_on_third 1)" "settled (gone_on_third 2)"
  by (simp_all add: gone_on_third_def settled_def last3_def strip_def py_isspace_def)

lemma ready_on_second_parse:
  "parse_temp celsius
     [''4b 01 4b 46 7f ff 05 10 e1 : crc=e1 YES'' @ [CHR 0x0A],
      ''4b 01 4b 46 7f ff 05 10 e1 t=20687'' @ [CHR 0x0A]] =
   celsius (''20687'' @ [CHR 0x0A])"
  by (simp add: parse_temp_def)

text \<open>
  Claim C9 as amended at work: a file that is ready at the second read gives, after two
  reads, the float of \<^verbatim>\<open>"20687\n"\<close> over 1000; a file that cannot be read at the third
  read gives \<^verbatim>\<open>None\<close> after three reads; the file that is never ready gives no return.
\<close>

theorem read_temp_returns_iff_settled_witness:
  "\<not> settled (ready_on_second 0) \<and> settled (ready_on_second 1) \<and>
   (\<forall>celsius. read_temp celsius ready_on_second = Some (celsius (''20687'' @ [CHR 0x0A]), 2)) \<and>
   \<not> settled (gone_on_third 0) \<and> \<not> settled (gone_on_third 1) \<and> gone_on_third 2 = None \<and>
   (\<forall>celsius. read_temp celsius gone_on_third = Some (None, 3)) \<and>
   (\<forall>j. \<not> settled (never_ready j)) \<and>
   (\<forall>celsius. read_temp celsius never_ready = None)"
proof -
  have before1: "\<forall>j<1. \<not> settled (ready_on_second j)"
    using ready_on_second_settled(1) by simp
  have lines1: "ready_on_second 1 =
      Some [''4b 01 4b 46 7f ff 05 10 e1 : crc=e1 YES'' @ [CHR 0x0A],
            ''4b 01 4b 46 7f ff 05 10 e1 t=20687'' @ [CHR 0x0A]]"
    by (simp add: ready_on_second_def)
  have a: "read_temp celsius ready_on_second = Some (celsius (''20687'' @ [CHR 0x0A]), 2)"
    for celsius
    using read_temp_returns_iff_settled[of ready_on_second 1 celsius]
          ready_on_second_settled(2) before1 lines1 ready_on_second_parse[of celsius]
    by simp
  have before2: "\<forall>j<2. \<not> settled (gone_on_third j)"
    using gone_on_third_settled(1,2) by (simp add: less_Suc_eq numeral_2_eq_2)
  have gone: "gone_on_third 2 = None" by (simp add: gone_on_third_def)
  have b: "read_temp celsius gone_on_third = Some (None, 3)" for celsius
    using read_temp_returns_iff_settled[of gone_on_third 2 celsius]
          gone_on_third_settled(3) before2 gone
    by simp
  have never: "\<forall>j. \<not> settled (never_ready j)" using never_ready_unsettled by simp
  have c: "read_temp celsius never_ready = None" for celsius
    using read_temp_returns_iff_settled[of never_ready 0 celsius] never by simp
  from a b c never ready_on_second_settled gone_on_third_settled gone show ?thesis by simp
qed

text \<open>
  Claim C9 as stated fails: on a device file that reports \<^verbatim>\<open>NO\<close> at every read,
  \<^verbatim>\<open>read_temp\<close> never returns.
\<close>

theorem read_temp_unbounded_counterexample:
  "\<forall>celsius. read_temp celsius never_ready = None"
proof
  fix celsius
  obtain l ls where first: "never_ready 0 = Some (l # ls)"
    by (simp add: never_ready_def)
  with never_ready_unsettled[of 0] have ns: "\<not> settled (Some (l # ls))" by simp
  have "\<forall>k. \<not> settled (never_ready k)" using never_ready_unsettled by simp
  from await_ready_diverges[OF this ns, of 1] first
  show "read_temp celsius never_ready = None" by (simp add: read_temp_def read_temp_raw_def)
qed

section \<open>Properties of the settings and of the clean-up\<close>

text \<open>
  Claim C6, as amended. A click on the settings screen of either variant that is accepted
  leaves the setpoints of the selected room as they are or moves exactly one of them by
  one, without any check; \<open>min_temp < max_temp\<close> holds afterwards whenever
  \<open>min_temp + 1 < max_temp\<close> held before.
\<close>

theorem setpoint_edit_unchecked:
  assumes "settings_click ly pos a d = Inr (a', d')"
      and "ly = ded_layout \<or> ly = grfin_layout"
      and "selected_room a = Some room" and "settings a room = Some cfg"
  shows "\<exists>cfg'. settings a' room = Some cfg' \<and>
           ((min_temp cfg', max_temp cfg') = (min_temp cfg, max_temp cfg) \<or>
            (min_temp cfg', max_temp cfg') = (min_temp cfg + 1, max_temp cfg) \<or>
            (min_temp cfg', max_temp cfg') = (min_temp cfg - 1, max_temp cfg) \<or>
            (min_temp cfg', max_temp cfg') = (min_temp cfg, max_temp cfg + 1) \<or>
            (min_temp cfg', max_temp cfg') = (min_temp cfg, max_temp cfg - 1)) \<and>
           (min_temp cfg + 1 < max_temp cfg \<longrightarrow> min_temp cfg' < max_temp cfg')"
proof -
  obtain x y where pos: "pos = (x, y)" by (cases pos)
  show ?thesis
    using assms unfolding settings_click_def pos
    by (auto simp: ded_layout_def grfin_layout_def edit_room_def toggle_heat_def toggle_cool_def
          save_settings_def Let_def
        split: if_splits sum.splits option.splits)
qed

text \<open>
  Claim C6 as amended at work: on room 2, at its defaults, a click on the button that
  lowers the maximum gives the band 20 to 24.
\<close>

theorem setpoint_edit_unchecked_witness:
  "settings_click ded_layout (360, 190) editing_room2 fresh_disk =
     Inr (editing_room2\<lparr>settings := (settings editing_room2)
            (''room2'' \<mapsto> default_room\<lparr>max_temp := 24\<rparr>)\<rparr>, fresh_disk) \<and>
   selected_room editing_room2 = Some ''room2'' \<and>
   settings editing_room2 ''room2'' = Some default_room \<and>
   min_temp default_room + 1 < max_temp default_room \<and>
   (\<exists>cfg'. settings (editing_room2\<lparr>settings := (settings editing_room2)
            (''room2'' \<mapsto> default_room\<lparr>max_temp := 24\<rparr>)\<rparr>) ''room2'' = Some cfg' \<and>
      (min_temp cfg', max_temp cfg') = (min_temp default_room, max_temp default_room - 1) \<and>
      min_temp cfg' < max_temp cfg')"
proof -
  have run: "settings_click ded_layout (360, 190) editing_room2 fresh_disk =
     Inr (editing_room2\<lparr>settings := (settings editing_room2)
            (''room2'' \<mapsto> default_room\<lparr>max_temp := 24\<rparr>)\<rparr>, fresh_disk)"
    by (simp add: settings_click_def ded_layout_def editing_room2_def editing_room1_def
          init_app_def edit_room_def DEFAULT_SETTINGS_def default_room_def)
  have sel: "selected_room editing_room2 = Some ''room2''"
    by (simp add: editing_room2_def)
  have cfg: "settings editing_room2 ''room2'' = Some default_room"
    by (simp add: editing_room2_def editing_room1_def init_app_def DEFAULT_SETTINGS_def)
  have band: "min_temp default_room + 1 < max_temp default_room"
    by (simp add: default_room_def)
  from setpoint_edit_unchecked[OF run _ sel cfg, of ] run sel cfg band
  show ?thesis by (simp add: default_room_def)
qed

text \<open>
  Claim C6 as stated fails: with the band 24 to 25, a click on the button that raises the
  minimum is accepted in both variants and leaves \<open>min_temp = max_temp = 25\<close>.
\<close>

theorem setpoint_edit_unchecked_counterexample:
  "selected_room editing_room1 = Some ''room1'' \<and>
   settings editing_room1 ''room1'' =
     Some \<lparr>min_temp = 24, max_temp = 25, manual_heat = False, manual_cool = False\<rparr> \<and>
   settings_click ded_layout (310, 130) editing_room1 fresh_disk =
     Inr (editing_room1\<lparr>settings := (settings editing_room1)
            (''room1'' \<mapsto>
               \<lparr>min_temp = 25, max_temp = 25, manual_heat = False, manual_cool = False\<rparr>)\<rparr>,
          fresh_disk) \<and>
   settings_click grfin_layout (310, 170) editing_room1 fresh_disk =
     Inr (editing_room1\<lparr>settings := (settings editing_room1)
            (''room1'' \<mapsto>
               \<lparr>min_temp = 25, max_temp = 25, manual_heat = False, manual_cool = False\<rparr>)\<rparr>,
          fresh_disk) \<and>
   \<not> (25 :: int) < 25"
  by (simp add: settings_click_def ded_layout_def grfin_layout_def editing_room1_def
        init_app_def edit_room_def DEFAULT_SETTINGS_def default_room_def)

text \<open>
  Claim C7, as amended. When the settings file is missing or malformed, \<^verbatim>\<open>load_settings\<close>
  returns the built-in defaults, which give every room of the room list the setpoints 20 and
  25 and cleared manual flags, and nothing is raised. When the file holds a configuration,
  that configuration is returned as it is: nothing is filled in for rooms it lacks.
\<close>

theorem load_settings_as_stored:
  "(settings_file d = Missing \<or> settings_file d = Malformed \<longrightarrow>
      load_settings d = DEFAULT_SETTINGS \<and>
      (\<forall>r\<in>set rooms. load_settings d r = Some default_room)) \<and>
   (settings_file d = Stored loaded \<longrightarrow> load_settings d = loaded)"
  by (auto simp: load_settings_def DEFAULT_SETTINGS_def rooms_def sensor_ids_def)

text \<open>
  Claim C7 as amended at work: without a file the defaults are loaded; a stored
  configuration is loaded as it is.
\<close>

theorem load_settings_as_stored_witness:
  "settings_file fresh_disk = Missing \<and>
   load_settings fresh_disk = DEFAULT_SETTINGS \<and>
   list_all (\<lambda>r. load_settings fresh_disk r = Some default_room) rooms \<and>
   settings_file (fresh_disk\<lparr>settings_file := Stored without_room3\<rparr>) = Stored without_room3 \<and>
   load_settings (fresh_disk\<lparr>settings_file := Stored without_room3\<rparr>) = without_room3"
  using load_settings_as_stored[of fresh_disk without_room3]
        load_settings_as_stored[of "fresh_disk\<lparr>settings_file := Stored without_room3\<rparr>" without_room3]
  by (auto simp: fresh_disk_def list_all_iff)

text \<open>
  Claim C7 as stated fails: a stored configuration without room 3 is loaded without room
  3, and the first control cycle in which room 3 has a reading raises \<^verbatim>\<open>KeyError\<close>.
\<close>

theorem load_settings_no_fill_counterexample:
  "''room3'' \<in> set rooms \<and>
   without_room3 ''room3'' = None \<and>
   load_settings (fresh_disk\<lparr>settings_file := Stored without_room3\<rparr>) ''room3'' = None \<and>
   control_climate grfin_set_relay 10
     ((init_app (load_settings (fresh_disk\<lparr>settings_file := Stored without_room3\<rparr>)))
        \<lparr>temperatures := [''room3'' \<mapsto> Finite 21]\<rparr>)
     grfin_gpio_ready = Inl KeyError"
  by (simp add: load_settings_def fresh_disk_def without_room3_def cycle_eval)







end
